theory Spec2Isabelle
  imports Complex_Main "HOL-Library.Word"
begin

unbundle bit_operations_syntax

section \<open>JavaScript numbers\<close>

text \<open>
  The program computes with JavaScript numbers (IEEE-754 binary64). A number is modelled
  as a finite real \<open>Num r\<close> or as \<open>NaN\<close>, which the program can produce from finite
  operands by \<open>%\<close> with a zero divisor and by reading an array out of range. The
  infinities are not modelled. Arithmetic on \<open>Num\<close> is exact; the rounding of binary64
  is the function \<open>f64\<close> below. It is applied to every operation of the two positions
  that wrap around, \<open>px\<close> of \<open>drawForest\<close> and \<open>x\<close> of \<open>drawCat\<close>, where a rounding
  error can move the result by a whole period, and to the state of the generator.
\<close>

datatype jsnum = Num real | NaN

instantiation jsnum :: "{zero, one, plus, minus, uminus, times, inverse}"
begin

definition zero_jsnum :: jsnum where "0 = Num 0"

definition one_jsnum :: jsnum where "1 = Num 1"

fun plus_jsnum :: "jsnum \<Rightarrow> jsnum \<Rightarrow> jsnum" where
  "Num a + Num b = Num (a + b)"
| "_ + _ = NaN"

fun minus_jsnum :: "jsnum \<Rightarrow> jsnum \<Rightarrow> jsnum" where
  "Num a - Num b = Num (a - b)"
| "_ - _ = NaN"

fun uminus_jsnum :: "jsnum \<Rightarrow> jsnum" where
  "- Num a = Num (- a)"
| "- NaN = NaN"

fun times_jsnum :: "jsnum \<Rightarrow> jsnum \<Rightarrow> jsnum" where
  "Num a * Num b = Num (a * b)"
| "_ * _ = NaN"

text \<open>
  Division by zero gives an infinity or NaN in JavaScript; the program divides by nonzero
  constants only, and the model gives \<open>NaN\<close> for a zero divisor.
\<close>

fun divide_jsnum :: "jsnum \<Rightarrow> jsnum \<Rightarrow> jsnum" where
  "divide_jsnum (Num a) (Num b) = (if b = 0 then NaN else Num (a / b))"
| "divide_jsnum _ _ = NaN"

fun inverse_jsnum :: "jsnum \<Rightarrow> jsnum" where
  "inverse_jsnum (Num a) = (if a = 0 then NaN else Num (1 / a))"
| "inverse_jsnum NaN = NaN"

instance ..

end

instance jsnum :: semigroup_add
proof
  fix a b c :: jsnum
  show "a + b + c = a + (b + c)"
    by (cases a; cases b; cases c) simp_all
qed

instance jsnum :: numeral ..

instance jsnum :: power ..

text \<open>Truncation towards zero, the integer part that \<open>%\<close> and ToInt32 use.\<close>

definition js_trunc :: "real \<Rightarrow> int" where
  "js_trunc r = (if 0 \<le> r then \<lfloor>r\<rfloor> else \<lceil>r\<rceil>)"

text \<open>
  The operator \<open>a % b\<close>: the remainder of the truncated division, with the sign of the
  dividend; NaN when \<open>b\<close> is zero or an operand is NaN.
\<close>

fun js_rem :: "jsnum \<Rightarrow> jsnum \<Rightarrow> jsnum" where
  "js_rem (Num a) (Num b) = (if b = 0 then NaN else Num (a - b * of_int (js_trunc (a / b))))"
| "js_rem _ _ = NaN"

text \<open>The comparison \<open>a <= b\<close>, false when an operand is NaN.\<close>

fun js_le :: "jsnum \<Rightarrow> jsnum \<Rightarrow> bool" where
  "js_le (Num a) (Num b) = (a \<le> b)"
| "js_le _ _ = False"

fun js_lt :: "jsnum \<Rightarrow> jsnum \<Rightarrow> bool" where
  "js_lt (Num a) (Num b) = (a < b)"
| "js_lt _ _ = False"

text \<open>\<open>Math.sin\<close>, \<open>Math.cos\<close>, \<open>Math.PI\<close>, \<open>Math.max\<close> and \<open>Math.min\<close>.\<close>

fun Math_sin :: "jsnum \<Rightarrow> jsnum" where
  "Math_sin (Num a) = Num (sin a)"
| "Math_sin NaN = NaN"

fun Math_cos :: "jsnum \<Rightarrow> jsnum" where
  "Math_cos (Num a) = Num (cos a)"
| "Math_cos NaN = NaN"

definition Math_PI :: jsnum where
  "Math_PI = Num pi"

fun Math_max :: "jsnum \<Rightarrow> jsnum \<Rightarrow> jsnum" where
  "Math_max (Num a) (Num b) = Num (max a b)"
| "Math_max _ _ = NaN"

fun Math_min :: "jsnum \<Rightarrow> jsnum \<Rightarrow> jsnum" where
  "Math_min (Num a) (Num b) = Num (min a b)"
| "Math_min _ _ = NaN"

text \<open>An integer loop counter used as a number.\<close>

definition nat_num :: "nat \<Rightarrow> jsnum" where
  "nat_num i = Num (real i)"

definition int_num :: "int \<Rightarrow> jsnum" where
  "int_num i = Num (real_of_int i)"

text \<open>Reading \<open>xs[i]\<close> in an arithmetic expression: \<open>undefined\<close>, out of range, converts to NaN.\<close>

definition js_index :: "jsnum list \<Rightarrow> nat \<Rightarrow> jsnum" where
  "js_index xs i = (if i < length xs then xs ! i else NaN)"

subsection \<open>Rounding to binary64\<close>

text \<open>
  Rounding of a real to binary64, round-to-nearest with ties to even, 53 significant
  bits; the exponent range is taken unbounded (no overflow to Infinity, no subnormals).
\<close>

fun bitlen :: "nat \<Rightarrow> nat" where
  "bitlen n = (if n = 0 then 0 else Suc (bitlen (n div 2)))"

declare bitlen.simps [simp del]

text \<open>For \<open>r \<noteq> 0\<close>, the exponent \<open>e\<close> with \<open>2^e \<le> |r| < 2^(e+1)\<close>.\<close>

definition f64_exponent :: "real \<Rightarrow> int" where
  "f64_exponent r =
     (if 1 \<le> \<bar>r\<bar> then int (bitlen (nat \<lfloor>\<bar>r\<bar>\<rfloor>)) - 1
      else - int (bitlen (nat (\<lceil>1 / \<bar>r\<bar>\<rceil> - 1))))"

definition round_half_even :: "real \<Rightarrow> int" where
  "round_half_even q =
     (let f = \<lfloor>q\<rfloor>; d = q - of_int f
      in if d < 1 / 2 then f else if 1 / 2 < d then f + 1 else if even f then f else f + 1)"

definition f64_real :: "real \<Rightarrow> real" where
  "f64_real r = (if r = 0 then 0
                 else let u = 2 powi (f64_exponent r - 52)
                      in of_int (round_half_even (r / u)) * u)"

fun f64 :: "jsnum \<Rightarrow> jsnum" where
  "f64 (Num r) = Num (f64_real r)"
| "f64 NaN = NaN"

text \<open>
  The rounding applied to the result of each arithmetic operation is a parameter of the
  positions that wrap around: \<open>f64\<close> is the arithmetic of the program, \<open>exact\<close> that of
  the real numbers. The operator \<open>%\<close> is exact in binary64.
\<close>

definition exact :: "jsnum \<Rightarrow> jsnum" where
  "exact v = v"

section \<open>The seeded generator\<close>

text \<open>ToInt32 of a number: truncate, then reduce modulo \<open>2^32\<close>; NaN converts to 0.\<close>

fun to_int32 :: "jsnum \<Rightarrow> 32 word" where
  "to_int32 (Num r) = word_of_int (js_trunc r)"
| "to_int32 NaN = 0"

text \<open>
  One call of the closure returned by \<open>mulberry32(a)\<close>: the captured number \<open>a\<close> is
  the state; the result is the value returned and the new state. \<open>a += 0x6d2b79f5\<close>
  is an addition of numbers, rounded to binary64 and not reduced to 32 bits; the bit
  operations and \<open>Math.imul\<close> work on the 32-bit conversion of their operands. The
  final division of an unsigned 32-bit value by \<open>2^32\<close> is exact.
\<close>

definition mulberry32_call :: "jsnum \<Rightarrow> jsnum \<times> jsnum" where
  "mulberry32_call a =
     (let a' = f64 (a + 1831565813);
          t0 = to_int32 a';
          t1 = (t0 XOR drop_bit 15 t0) * (t0 OR 1);
          t2 = t1 XOR (t1 + (t1 XOR drop_bit 7 t1) * (t1 OR 61))
      in (Num (real (unat (t2 XOR drop_bit 14 t2)) / 4294967296), a'))"

text \<open>The state after \<open>n\<close> calls and the value returned by call number \<open>n\<close> (from 0) of \<open>mulberry32(seed)\<close>.\<close>

fun mulberry32_state :: "jsnum \<Rightarrow> nat \<Rightarrow> jsnum" where
  "mulberry32_state seed 0 = seed"
| "mulberry32_state seed (Suc n) = snd (mulberry32_call (mulberry32_state seed n))"

definition mulberry32_nth :: "jsnum \<Rightarrow> nat \<Rightarrow> jsnum" where
  "mulberry32_nth seed n = fst (mulberry32_call (mulberry32_state seed n))"

section \<open>Tree descriptors\<close>

text \<open>The field \<open>x\<close> of the source is \<open>tree_x\<close> here.\<close>

record tree =
  tree_x :: jsnum
  baseY :: jsnum
  height :: jsnum
  width :: jsnum
  layer :: nat
  hue :: jsnum

text \<open>
  The body of the loop of \<open>generateTrees\<close> for index \<open>i\<close>: five calls of the
  generator, in the order of the source, and the descriptor pushed. The generator state is
  passed through.
\<close>

definition make_tree :: "nat \<Rightarrow> jsnum \<Rightarrow> jsnum \<Rightarrow> jsnum \<Rightarrow> tree \<times> jsnum" where
  "make_tree i W H a0 =
     (let l = i mod 3;
          (r1, a1) = mulberry32_call a0;
          x = r1 * W * 2 - W * 0.5;
          (r2, a2) = mulberry32_call a1;
          yb = H * (0.65 + nat_num l * 0.08) + (r2 - 0.5) * 20;
          (r3, a3) = mulberry32_call a2;
          h = H * (0.12 + nat_num l * 0.08) * (0.8 + r3 * 0.4);
          (r4, a4) = mulberry32_call a3;
          w = h * (0.06 + r4 * 0.04);
          (r5, a5) = mulberry32_call a4;
          hu = 115 + nat_num l * 10 + r5 * 10
      in (\<lparr>tree_x = x, baseY = yb, height = h, width = w, layer = l, hue = hu\<rparr>, a5))"

function generateTrees_loop :: "nat \<Rightarrow> nat \<Rightarrow> jsnum \<Rightarrow> jsnum \<Rightarrow> jsnum \<Rightarrow> tree list \<Rightarrow> tree list" where
  "generateTrees_loop i count W H a trees =
     (if i < count
      then (let (tr, a') = make_tree i W H a in generateTrees_loop (Suc i) count W H a' (trees @ [tr]))
      else trees)"
  by pat_completeness auto
termination
  by (relation "measure (\<lambda>(i, count, W, H, a, trees). count - i)") auto

declare generateTrees_loop.simps [simp del]

text \<open>
  \<open>Array.prototype.sort\<close> with the comparator \<open>a.layer - b.layer\<close> is a stable sort by
  layer; \<open>sort_key\<close> is the stable insertion sort of the library.
\<close>

definition generateTrees :: "nat \<Rightarrow> jsnum \<Rightarrow> jsnum \<Rightarrow> tree list" where
  "generateTrees count W H = sort_key layer (generateTrees_loop 0 count W H 123456 [])"

section \<open>The drawing surface\<close>

text \<open>
  The 2D context is modelled by the state the program sets and by the list of painting
  calls made, each with the state it was painted with. A template string
  \<open>hsl(h, s%, l%)\<close> is the value \<open>Hsl h s l\<close>.
\<close>

datatype style =
    Color string
  | Hsl real real real
  | LinearGradient real real real real "(real \<times> string) list"

datatype line_cap = Butt | Round | Square

datatype seg =
    MoveTo real real
  | LineTo real real
  | QuadraticCurveTo real real real real
  | Ellipse real real real real real real real
  | Arc real real real real real
  | ClosePath

datatype draw_op =
    FillRect style real real real real
  | Fill style "seg list"
  | Stroke style real line_cap "seg list"

record ctx =
  fillStyle :: style
  strokeStyle :: style
  lineWidth :: real
  lineCap :: line_cap
  path :: "seg list"
  drawn :: "draw_op list"

text \<open>
  A path method appends its segment to the current path, \<open>fillRect\<close>, \<open>fill\<close> and
  \<open>stroke\<close> append a painting call; a method called with a NaN argument returns
  without effect. The exception of \<open>ellipse\<close> and \<open>arc\<close> for a negative radius is not
  modelled: the program passes positive constants.
\<close>

fun fillRect_op :: "style \<Rightarrow> jsnum \<Rightarrow> jsnum \<Rightarrow> jsnum \<Rightarrow> jsnum \<Rightarrow> draw_op list" where
  "fillRect_op s (Num x) (Num y) (Num w) (Num h) = [FillRect s x y w h]"
| "fillRect_op s _ _ _ _ = []"

definition fillRect :: "jsnum \<Rightarrow> jsnum \<Rightarrow> jsnum \<Rightarrow> jsnum \<Rightarrow> ctx \<Rightarrow> ctx" where
  "fillRect x y w h c = c\<lparr>drawn := drawn c @ fillRect_op (fillStyle c) x y w h\<rparr>"

definition beginPath :: "ctx \<Rightarrow> ctx" where
  "beginPath c = c\<lparr>path := []\<rparr>"

definition closePath :: "ctx \<Rightarrow> ctx" where
  "closePath c = c\<lparr>path := path c @ [ClosePath]\<rparr>"

fun moveTo_seg :: "jsnum \<Rightarrow> jsnum \<Rightarrow> seg list" where
  "moveTo_seg (Num x) (Num y) = [MoveTo x y]"
| "moveTo_seg _ _ = []"

definition moveTo :: "jsnum \<Rightarrow> jsnum \<Rightarrow> ctx \<Rightarrow> ctx" where
  "moveTo x y c = c\<lparr>path := path c @ moveTo_seg x y\<rparr>"

fun lineTo_seg :: "jsnum \<Rightarrow> jsnum \<Rightarrow> seg list" where
  "lineTo_seg (Num x) (Num y) = [LineTo x y]"
| "lineTo_seg _ _ = []"

definition lineTo :: "jsnum \<Rightarrow> jsnum \<Rightarrow> ctx \<Rightarrow> ctx" where
  "lineTo x y c = c\<lparr>path := path c @ lineTo_seg x y\<rparr>"

fun quadraticCurveTo_seg :: "jsnum \<Rightarrow> jsnum \<Rightarrow> jsnum \<Rightarrow> jsnum \<Rightarrow> seg list" where
  "quadraticCurveTo_seg (Num cpx) (Num cpy) (Num x) (Num y) = [QuadraticCurveTo cpx cpy x y]"
| "quadraticCurveTo_seg _ _ _ _ = []"

definition quadraticCurveTo :: "jsnum \<Rightarrow> jsnum \<Rightarrow> jsnum \<Rightarrow> jsnum \<Rightarrow> ctx \<Rightarrow> ctx" where
  "quadraticCurveTo cpx cpy x y c = c\<lparr>path := path c @ quadraticCurveTo_seg cpx cpy x y\<rparr>"

fun ellipse_seg :: "jsnum \<Rightarrow> jsnum \<Rightarrow> jsnum \<Rightarrow> jsnum \<Rightarrow> jsnum \<Rightarrow> jsnum \<Rightarrow> jsnum \<Rightarrow> seg list" where
  "ellipse_seg (Num x) (Num y) (Num rx) (Num ry) (Num rot) (Num a0) (Num a1) = [Ellipse x y rx ry rot a0 a1]"
| "ellipse_seg _ _ _ _ _ _ _ = []"

definition ellipse :: "jsnum \<Rightarrow> jsnum \<Rightarrow> jsnum \<Rightarrow> jsnum \<Rightarrow> jsnum \<Rightarrow> jsnum \<Rightarrow> jsnum \<Rightarrow> ctx \<Rightarrow> ctx" where
  "ellipse x y rx ry rot a0 a1 c = c\<lparr>path := path c @ ellipse_seg x y rx ry rot a0 a1\<rparr>"

fun arc_seg :: "jsnum \<Rightarrow> jsnum \<Rightarrow> jsnum \<Rightarrow> jsnum \<Rightarrow> jsnum \<Rightarrow> seg list" where
  "arc_seg (Num x) (Num y) (Num r) (Num a0) (Num a1) = [Arc x y r a0 a1]"
| "arc_seg _ _ _ _ _ = []"

definition arc :: "jsnum \<Rightarrow> jsnum \<Rightarrow> jsnum \<Rightarrow> jsnum \<Rightarrow> jsnum \<Rightarrow> ctx \<Rightarrow> ctx" where
  "arc x y r a0 a1 c = c\<lparr>path := path c @ arc_seg x y r a0 a1\<rparr>"

definition fill :: "ctx \<Rightarrow> ctx" where
  "fill c = c\<lparr>drawn := drawn c @ [Fill (fillStyle c) (path c)]\<rparr>"

definition stroke :: "ctx \<Rightarrow> ctx" where
  "stroke c = c\<lparr>drawn := drawn c @ [Stroke (strokeStyle c) (lineWidth c) (lineCap c) (path c)]\<rparr>"

text \<open>
  The string built by an \<open>hsl(...)\<close> template is a colour unless a component prints as
  NaN; assigning a string that is not a colour to \<open>fillStyle\<close> leaves it unchanged.
\<close>

fun hsl :: "jsnum \<Rightarrow> jsnum \<Rightarrow> jsnum \<Rightarrow> style option" where
  "hsl (Num h) (Num s) (Num l) = Some (Hsl h s l)"
| "hsl _ _ _ = None"

fun set_fillStyle :: "style option \<Rightarrow> ctx \<Rightarrow> ctx" where
  "set_fillStyle (Some s) c = c\<lparr>fillStyle := s\<rparr>"
| "set_fillStyle None c = c"

text \<open>\<open>createLinearGradient\<close> throws a TypeError for an argument that is not finite.\<close>

datatype js_error = TypeError

fun createLinearGradient :: "jsnum \<Rightarrow> jsnum \<Rightarrow> jsnum \<Rightarrow> jsnum \<Rightarrow> js_error + style" where
  "createLinearGradient (Num x0) (Num y0) (Num x1) (Num y1) = Inr (LinearGradient x0 y0 x1 y1 [])"
| "createLinearGradient _ _ _ _ = Inl TypeError"

fun addColorStop :: "real \<Rightarrow> string \<Rightarrow> style \<Rightarrow> style" where
  "addColorStop off col (LinearGradient x0 y0 x1 y1 stops) = LinearGradient x0 y0 x1 y1 (stops @ [(off, col)])"
| "addColorStop off col s = s"

text \<open>The state of a context just created.\<close>

definition fresh_ctx :: ctx where
  "fresh_ctx =
     \<lparr>fillStyle = Color ''#000000'', strokeStyle = Color ''#000000'', lineWidth = 1,
      lineCap = Butt, path = [], drawn = []\<rparr>"

text \<open>Two contexts that paint alike with \<open>fill\<close> and \<open>fillRect\<close>, on the same calls so far.\<close>

definition same_paint :: "ctx \<Rightarrow> ctx \<Rightarrow> bool" where
  "same_paint c1 c2 \<longleftrightarrow> fillStyle c1 = fillStyle c2 \<and> path c1 = path c2 \<and> drawn c1 = drawn c2"

section \<open>The scene\<close>

definition noise2D :: "jsnum \<Rightarrow> jsnum \<Rightarrow> jsnum" where
  "noise2D x y = Math_sin (x * 1.3 + y * 0.7) * Math_cos (x * 0.7 - y * 1.1) * 0.5 + 0.5"

text \<open>The body of the loop of \<open>drawBlob\<close> for counter \<open>i\<close>, and \<open>drawBlob\<close>.\<close>

definition drawBlob_point :: "jsnum \<Rightarrow> jsnum \<Rightarrow> jsnum \<Rightarrow> jsnum \<Rightarrow> nat \<Rightarrow> ctx \<Rightarrow> ctx" where
  "drawBlob_point x y w h i c =
     (let a = (nat_num i / 16) * Math_PI * 2;
          rx = Math_cos a * w * (0.45 + 0.1 * noise2D (Math_cos a) (Math_sin a));
          ry = Math_sin a * h * (0.45 + 0.1 * noise2D (Math_sin a) (Math_cos a));
          px = x + w * 0.5 + rx;
          py = y + h * 0.5 + ry
      in if i = 0 then moveTo px py c else lineTo px py c)"

definition drawBlob :: "jsnum \<Rightarrow> jsnum \<Rightarrow> jsnum \<Rightarrow> jsnum \<Rightarrow> ctx \<Rightarrow> ctx" where
  "drawBlob x y w h c =
     (let c = beginPath c;
          c = fold (drawBlob_point x y w h) [0..<17] c;
          c = closePath c
      in fill c)"

text \<open>
  The horizontal screen position \<open>px\<close> that \<open>drawForest\<close> computes for a tree at time
  \<open>t\<close>, with the rounding \<open>rnd\<close> of each operation; \<open>drawForest\<close> computes in binary64.
\<close>

definition tree_px :: "(jsnum \<Rightarrow> jsnum) \<Rightarrow> jsnum \<Rightarrow> tree \<Rightarrow> jsnum \<Rightarrow> jsnum" where
  "tree_px rnd W tr t =
     (let speed = js_index [8, 16, 32] (layer tr)
      in rnd (js_rem (rnd (tree_x tr - rnd (t * speed))) (rnd (W * 2)) + W))"

definition drawForest_tree :: "jsnum \<Rightarrow> jsnum \<Rightarrow> tree \<Rightarrow> ctx \<Rightarrow> ctx" where
  "drawForest_tree W t tr c =
     (let px = tree_px f64 W tr t;
          c = set_fillStyle (hsl (hue tr) 25 (30 + nat_num (layer tr) * 5)) c;
          c = fillRect px (baseY tr - height tr) (width tr) (height tr) c;
          canopyW = width tr * 6;
          canopyH = height tr * 0.8;
          c = set_fillStyle (hsl (hue tr) 35 (28 + nat_num (layer tr) * 8)) c
      in drawBlob (px - canopyW * 0.3) (baseY tr - height tr - canopyH * 0.5) canopyW canopyH c)"

definition drawForest :: "jsnum \<Rightarrow> jsnum \<Rightarrow> tree list \<Rightarrow> jsnum \<Rightarrow> ctx \<Rightarrow> ctx" where
  "drawForest W H trees t c = fold (drawForest_tree W t) trees c"

text \<open>The inner loop of \<open>drawHills\<close>: \<open>x\<close> runs from 0 in steps of 8 while \<open>x <= W\<close>.\<close>

function drawHills_line :: "real \<Rightarrow> jsnum \<Rightarrow> nat \<Rightarrow> jsnum \<Rightarrow> jsnum \<Rightarrow> ctx \<Rightarrow> ctx" where
  "drawHills_line x W i yBase t c =
     (if js_le (Num x) W
      then (let y = yBase + 30 * Math_sin ((Num x + nat_num i * 200) * 0.004
                                           + t * (0.05 + nat_num i * 0.02))
            in drawHills_line (x + 8) W i yBase t (lineTo (Num x) y c))
      else c)"
  by pat_completeness auto
termination
proof (relation "measure (\<lambda>(x, W, i, yBase, t, c). case W of Num w \<Rightarrow> nat \<lceil>(w - x) / 8 + 1\<rceil> | NaN \<Rightarrow> 0)")
  show "wf (measure (\<lambda>(x, W, i, yBase, t, c). case W of Num w \<Rightarrow> nat \<lceil>(w - x) / 8 + 1\<rceil> | NaN \<Rightarrow> 0))"
    by simp
next
  fix x :: real and W :: jsnum and i :: nat and yBase t :: jsnum and c :: ctx and y :: jsnum
  assume le: "js_le (Num x) W"
  then obtain w where W: "W = Num w" and xw: "x \<le> w"
    by (cases W) simp_all
  have "\<lceil>(w - (x + 8)) / 8 + 1\<rceil> = \<lceil>(w - x) / 8\<rceil>"
    by (simp add: field_simps)
  moreover have "\<lceil>(w - x) / 8 + 1\<rceil> = \<lceil>(w - x) / 8\<rceil> + 1"
    by (rule ceiling_add_one)
  moreover have "0 \<le> \<lceil>(w - x) / 8\<rceil>"
    using xw by (simp add: ceiling_le_iff)
  ultimately show "((x + 8, W, i, yBase, t, lineTo (Num x) y c), (x, W, i, yBase, t, c))
        \<in> measure (\<lambda>(x, W, i, yBase, t, c). case W of Num w \<Rightarrow> nat \<lceil>(w - x) / 8 + 1\<rceil> | NaN \<Rightarrow> 0)"
    using W by simp
qed

declare drawHills_line.simps [simp del]

text \<open>The segments the loop adds to the path.\<close>

definition drawHills_line_path :: "real \<Rightarrow> jsnum \<Rightarrow> nat \<Rightarrow> jsnum \<Rightarrow> jsnum \<Rightarrow> seg list" where
  "drawHills_line_path x W i yBase t = path (drawHills_line x W i yBase t fresh_ctx)"

definition drawHills_layer :: "jsnum \<Rightarrow> jsnum \<Rightarrow> jsnum \<Rightarrow> nat \<Rightarrow> ctx \<Rightarrow> ctx" where
  "drawHills_layer W H t i c =
     (let yBase = H * (0.55 - nat_num i * 0.07);
          c = set_fillStyle (hsl (140 + nat_num i * 8) 25 (70 - nat_num i * 8)) c;
          c = beginPath c;
          c = moveTo 0 H c;
          c = drawHills_line 0 W i yBase t c;
          c = lineTo W H c;
          c = closePath c
      in fill c)"

definition drawHills :: "jsnum \<Rightarrow> jsnum \<Rightarrow> jsnum \<Rightarrow> ctx \<Rightarrow> ctx" where
  "drawHills W H t c = (let layers = 3 in fold (drawHills_layer W H t) [0..<layers] c)"

definition drawGrass_blade :: "jsnum \<Rightarrow> jsnum \<Rightarrow> jsnum \<Rightarrow> nat \<Rightarrow> nat \<Rightarrow> ctx \<Rightarrow> ctx" where
  "drawGrass_blade W H t blades i c =
     (let x = js_rem ((nat_num i / nat_num blades) * W + (Math_sin ((t + nat_num i) * 0.7) * 20)) W;
          h = 30 + 20 * Math_sin (nat_num i * 0.5 + t * 1.2);
          sway = Math_sin (t * 2 + nat_num i) * 8;
          c = beginPath c;
          c = moveTo x (H * 0.98) c;
          c = quadraticCurveTo (x + sway) (H * 0.98 - h * 0.6) (x + sway * 1.6) (H * 0.98 - h) c
      in stroke c)"

definition drawGrass :: "jsnum \<Rightarrow> jsnum \<Rightarrow> jsnum \<Rightarrow> ctx \<Rightarrow> ctx" where
  "drawGrass W H t c =
     (let blades = 140;
          c = c\<lparr>strokeStyle := Color ''#2a5f2a''\<rparr>;
          c = c\<lparr>lineWidth := 2\<rparr>
      in fold (drawGrass_blade W H t blades) [0..<blades] c)"

subsection \<open>The character\<close>

text \<open>
  The horizontal position \<open>x\<close> of \<open>drawCat\<close>, with the rounding \<open>rnd\<close> of each
  operation; \<open>drawCat\<close> computes in binary64.
\<close>

definition cat_x :: "(jsnum \<Rightarrow> jsnum) \<Rightarrow> jsnum \<Rightarrow> jsnum \<Rightarrow> jsnum" where
  "cat_x rnd t W =
     (let speed = 140;
          loopW = rnd (W + 300)
      in rnd (js_rem (rnd (t * speed)) loopW - 150))"

text \<open>The two oscillations \<open>step\<close> and \<open>bob\<close> of \<open>drawCat\<close>.\<close>

definition cat_step :: "jsnum \<Rightarrow> jsnum" where
  "cat_step t = Math_sin (t * 8)"

definition cat_bob :: "jsnum \<Rightarrow> jsnum" where
  "cat_bob t = Math_sin (t * 6) * 4"

text \<open>The bodies of the two loops of \<open>drawCat\<close>: the legs and the whiskers.\<close>

definition drawCat_leg :: "jsnum \<Rightarrow> jsnum \<Rightarrow> jsnum \<Rightarrow> jsnum \<Rightarrow> nat \<Rightarrow> ctx \<Rightarrow> ctx" where
  "drawCat_leg x step bodyY legY i c =
     (let phase = (if i mod 2 = 0 then step else - step);
          lx = x + 70 + nat_num i * 22;
          c = beginPath c;
          c = moveTo lx (bodyY + 20) c;
          c = lineTo (lx + phase * 12) legY c
      in stroke c)"

definition drawCat_whisker :: "jsnum \<Rightarrow> jsnum \<Rightarrow> int \<Rightarrow> ctx \<Rightarrow> ctx" where
  "drawCat_whisker headX headY i c =
     (let c = beginPath c;
          c = moveTo (headX - 8) (headY + 4 + int_num i * 4) c;
          c = lineTo (headX - 32) (headY + 2 + int_num i * 5) c
      in stroke c)"

definition drawCat :: "jsnum \<Rightarrow> jsnum \<Rightarrow> jsnum \<Rightarrow> ctx \<Rightarrow> ctx" where
  "drawCat t W H c =
     (let groundY = H * 0.78;
          x = cat_x f64 t W;
          step = cat_step t;
          bob = cat_bob t;
          bodyY = groundY - 80 + bob;
          \<comment> \<open>Shadow\<close>
          c = c\<lparr>fillStyle := Color ''rgba(0,0,0,0.15)''\<rparr>;
          c = beginPath c;
          c = ellipse (x + 120) (groundY + 6) 80 16 0 0 (Math_PI * 2) c;
          c = fill c;
          \<comment> \<open>Tail\<close>
          c = c\<lparr>strokeStyle := Color ''#333''\<rparr>;
          c = c\<lparr>lineWidth := 14\<rparr>;
          c = c\<lparr>lineCap := Round\<rparr>;
          c = beginPath c;
          c = moveTo (x + 40) (bodyY - 10) c;
          c = quadraticCurveTo (x - 20) (bodyY - 50 - step * 8) (x + 10) (bodyY - 70 - step * 4) c;
          c = stroke c;
          \<comment> \<open>Body\<close>
          c = c\<lparr>fillStyle := Color ''#444''\<rparr>;
          c = beginPath c;
          c = ellipse (x + 110) bodyY 90 48 0 0 (Math_PI * 2) c;
          c = fill c;
          \<comment> \<open>Legs\<close>
          c = c\<lparr>strokeStyle := Color ''#3a3a3a''\<rparr>;
          c = c\<lparr>lineWidth := 10\<rparr>;
          c = c\<lparr>lineCap := Round\<rparr>;
          legY = groundY - 8;
          c = fold (drawCat_leg x step bodyY legY) [0..<4] c;
          \<comment> \<open>Head\<close>
          headX = x + 180;
          headY = bodyY - 10;
          c = c\<lparr>fillStyle := Color ''#4b4b4b''\<rparr>;
          c = beginPath c;
          c = ellipse headX headY 34 30 0 0 (Math_PI * 2) c;
          c = fill c;
          \<comment> \<open>Ears\<close>
          c = c\<lparr>fillStyle := Color ''#3e3e3e''\<rparr>;
          c = beginPath c;
          c = moveTo (headX - 18) (headY - 20) c;
          c = lineTo (headX - 6) (headY - 40) c;
          c = lineTo (headX + 2) (headY - 18) c;
          c = closePath c;
          c = fill c;
          c = beginPath c;
          c = moveTo (headX + 10) (headY - 18) c;
          c = lineTo (headX + 24) (headY - 36) c;
          c = lineTo (headX + 26) (headY - 14) c;
          c = closePath c;
          c = fill c;
          \<comment> \<open>Eye\<close>
          c = c\<lparr>fillStyle := Color ''#ffd15c''\<rparr>;
          c = beginPath c;
          c = arc (headX + 10) (headY - 4) 4 0 (Math_PI * 2) c;
          c = fill c;
          c = c\<lparr>fillStyle := Color ''#222''\<rparr>;
          c = beginPath c;
          c = arc (headX + 10) (headY - 4) 2 0 (Math_PI * 2) c;
          c = fill c;
          \<comment> \<open>Nose\<close>
          c = c\<lparr>fillStyle := Color ''#e67d7d''\<rparr>;
          c = beginPath c;
          c = arc (headX - 5) (headY + 4) 3 0 (Math_PI * 2) c;
          c = fill c;
          \<comment> \<open>Whiskers\<close>
          c = c\<lparr>strokeStyle := Color ''#ddd''\<rparr>;
          c = c\<lparr>lineWidth := 1.5\<rparr>
      in fold (drawCat_whisker headX headY) [-1, 0, 1] c)"

subsection \<open>The frame\<close>

text \<open>
  The drawing part of the callback \<open>render\<close>, as a function of the elapsed seconds, the
  size and the trees. The result is the exception thrown, if any, and the context.
\<close>

definition renderFrame :: "jsnum \<Rightarrow> jsnum \<Rightarrow> jsnum \<Rightarrow> tree list \<Rightarrow> ctx \<Rightarrow> js_error option \<times> ctx" where
  "renderFrame elapsed W H trees c =
     (case createLinearGradient 0 0 0 H of
        Inl e \<Rightarrow> (Some e, c)
      | Inr sky \<Rightarrow>
          (let sky = addColorStop 0 ''#a8d0ff'' sky;
               sky = addColorStop 1 ''#e8f6ff'' sky;
               c = c\<lparr>fillStyle := sky\<rparr>;
               c = fillRect 0 0 W H c;
               c = drawHills W H elapsed c;
               c = drawForest W H trees elapsed c
           in case createLinearGradient 0 (H * 0.7) 0 H of
                Inl e \<Rightarrow> (Some e, c)
              | Inr grd \<Rightarrow>
                  (let grd = addColorStop 0 ''#5aa35a'' grd;
                       grd = addColorStop 1 ''#2e6b2e'' grd;
                       c = c\<lparr>fillStyle := grd\<rparr>;
                       c = fillRect 0 (H * 0.72) W (H * 0.28) c;
                       c = drawCat elapsed W H c;
                       c = drawGrass W H elapsed c
                   in (None, c))))"

record anim =
  startTime :: jsnum
  lastTime :: jsnum
  running :: bool
  anim_width :: jsnum
  anim_height :: jsnum

text \<open>
  The callback \<open>render(t)\<close> on the state \<open>animRef.current\<close> and the context. The
  request for the next frame, reached when nothing was thrown, is not part of the state.
\<close>

definition render :: "tree list \<Rightarrow> jsnum \<Rightarrow> anim \<times> ctx \<Rightarrow> js_error option \<times> anim \<times> ctx" where
  "render trees t s =
     (let (a, c) = s
      in if \<not> running a then (None, a, c)
         else (let W = anim_width a;
                   H = anim_height a;
                   a = (if startTime a = Num 0 then a\<lparr>startTime := t\<rparr> else a);
                   elapsed = (t - startTime a) / 1000;
                   (e, c) = renderFrame elapsed W H trees c
               in (e, a, c)))"

section \<open>The page: duration input and capture controller\<close>

datatype RecordingState = Idle | Recording | Processing | Done | Error

record page =
  recState :: RecordingState
  videoUrl :: "string option"
  errorMsg :: "string option"
  durationSec :: jsnum
  animRef :: anim

definition initial_page :: page where
  "initial_page =
     \<lparr>recState = Idle, videoUrl = None, errorMsg = None, durationSec = 10,
      animRef = \<lparr>startTime = 0, lastTime = 0, running = False, anim_width = 1280, anim_height = 720\<rparr>\<rparr>"

text \<open>
  The \<open>onChange\<close> handler of the duration input; \<open>v\<close> is \<open>Number(e.target.value)\<close>.
\<close>

definition duration_onChange :: "jsnum \<Rightarrow> page \<Rightarrow> page" where
  "duration_onChange v s = s\<lparr>durationSec := Math_max 1 (Math_min 60 v)\<rparr>"

text \<open>
  What \<open>handleRecord\<close> finds in the browser: whether the canvas is mounted, whether it
  has \<open>captureStream\<close>, whether \<open>window.MediaRecorder\<close> exists and which types it supports.
\<close>

record browser =
  canvas_mounted :: bool
  has_captureStream :: bool
  has_MediaRecorder :: bool
  isTypeSupported :: "string \<Rightarrow> bool"

definition mimeTypes :: "string list" where
  "mimeTypes = [''video/webm;codecs=vp9,opus'', ''video/webm;codecs=vp8,opus'', ''video/webm'']"

text \<open>The loop that picks the first supported type, starting from the empty string.\<close>

fun pick_mimeType :: "browser \<Rightarrow> string list \<Rightarrow> string" where
  "pick_mimeType env [] = ''''"
| "pick_mimeType env (mt # rest) =
     (if has_MediaRecorder env \<and> isTypeSupported env mt then mt else pick_mimeType env rest)"

text \<open>
  \<open>handleRecord\<close> up to its first \<open>await\<close>: the new page state and, when a recorder
  was started, the type chosen and the milliseconds passed to \<open>wait\<close>. The calls
  \<open>captureStream\<close>, \<open>new MediaRecorder\<close> and \<open>start\<close> are taken to succeed.
\<close>

definition handleRecord_begin :: "browser \<Rightarrow> page \<Rightarrow> page \<times> (string \<times> jsnum) option" where
  "handleRecord_begin env s0 =
     (let s = s0\<lparr>errorMsg := None\<rparr>;
          s = s\<lparr>videoUrl := None\<rparr>
      in if \<not> canvas_mounted env then (s, None)
         else if \<not> has_captureStream env
         then (let s = s\<lparr>errorMsg := Some ''Canvas captureStream not supported in this browser.''\<rparr>;
                   s = s\<lparr>recState := Error\<rparr>
               in (s, None))
         else (let mimeType = pick_mimeType env mimeTypes
               in if mimeType = ''''
                  then (let s = s\<lparr>errorMsg := Some ''MediaRecorder with WebM is not supported by this browser.''\<rparr>;
                            s = s\<lparr>recState := Error\<rparr>
                        in (s, None))
                  else (s\<lparr>recState := Recording\<rparr>, Some (mimeType, durationSec s0 * 1000))))"

text \<open>The rest of \<open>handleRecord\<close>: after the wait, and after the recorder's stop event.\<close>

definition handleRecord_after_wait :: "page \<Rightarrow> page" where
  "handleRecord_after_wait s = s\<lparr>recState := Processing\<rparr>"

definition handleRecord_after_stop :: "string \<Rightarrow> page \<Rightarrow> page" where
  "handleRecord_after_stop url s = (let s = s\<lparr>videoUrl := Some url\<rparr> in s\<lparr>recState := Done\<rparr>)"

text \<open>The handler \<open>recorder.onerror\<close>; \<open>m\<close> is the message of the event's error, if it has one.\<close>

definition recorder_onerror :: "string option \<Rightarrow> page \<Rightarrow> page" where
  "recorder_onerror m s =
     (let msg = (case m of None \<Rightarrow> ''Recording error''
                 | Some m' \<Rightarrow> if m' = '''' then ''Recording error'' else m');
          s = s\<lparr>errorMsg := Some msg\<rparr>
      in s\<lparr>recState := Error\<rparr>)"

text \<open>
  The steps of the page. Beside the page state there is one entry for each call of
  \<open>handleRecord\<close> that is suspended at an \<open>await\<close>: waiting for the timer, or waiting
  for the stop event. An event is a click on the button in some browser, the timer or
  the stop event of the suspended call number \<open>i\<close>, an error event of its recorder, or
  a change of the duration input. The button is disabled while the status is recording
  or processing. A number input holds the empty string or a valid number, so
  \<open>Number\<close> of its value is a number.
\<close>

datatype pending = Waiting jsnum | Stopping

datatype event =
    Click browser
  | Timer nat
  | Stopped nat string
  | RecorderError nat "string option"
  | Change real

fun is_RecorderError :: "event \<Rightarrow> bool" where
  "is_RecorderError (RecorderError i m) = True"
| "is_RecorderError _ = False"

text \<open>The events that resume a suspended call: its timer and its stop event.\<close>

fun is_resume :: "event \<Rightarrow> bool" where
  "is_resume (Timer i) = True"
| "is_resume (Stopped i url) = True"
| "is_resume _ = False"

inductive page_step :: "page \<times> pending list \<Rightarrow> event \<Rightarrow> page \<times> pending list \<Rightarrow> bool" where
  click:
    "recState s \<noteq> Recording \<Longrightarrow> recState s \<noteq> Processing \<Longrightarrow>
     handleRecord_begin env s = (s', r) \<Longrightarrow>
     page_step (s, ps) (Click env) (s', ps @ (case r of None \<Rightarrow> [] | Some (mt, ms) \<Rightarrow> [Waiting ms]))"
| timer:
    "i < length ps \<Longrightarrow> ps ! i = Waiting ms \<Longrightarrow>
     page_step (s, ps) (Timer i) (handleRecord_after_wait s, ps[i := Stopping])"
| stopped:
    "i < length ps \<Longrightarrow> ps ! i = Stopping \<Longrightarrow>
     page_step (s, ps) (Stopped i url) (handleRecord_after_stop url s, take i ps @ drop (Suc i) ps)"
| onerror:
    "i < length ps \<Longrightarrow> page_step (s, ps) (RecorderError i m) (recorder_onerror m s, ps)"
| change:
    "page_step (s, ps) (Change r) (duration_onChange (Num r) s, ps)"

text \<open>\<open>run evs st\<close>: the events \<open>evs\<close>, in this order, lead from the initial page to \<open>st\<close>.\<close>

inductive run :: "event list \<Rightarrow> page \<times> pending list \<Rightarrow> bool" where
  init: "run [] (initial_page, [])"
| step: "run evs st \<Longrightarrow> page_step st ev st' \<Longrightarrow> run (evs @ [ev]) st'"

text \<open>The chain of the status: a step keeps it or moves it one link forward.\<close>

fun chain :: "RecordingState \<Rightarrow> RecordingState \<Rightarrow> bool" where
  "chain Idle b = (b = Idle \<or> b = Recording \<or> b = Error)"
| "chain Recording b = (b = Recording \<or> b = Processing)"
| "chain Processing b = (b = Processing \<or> b = Done)"
| "chain Done b = (b = Done \<or> b = Recording \<or> b = Error)"
| "chain Error b = (b = Error \<or> b = Recording)"

text \<open>Browsers used as examples.\<close>

definition browser_without_capture :: browser where
  "browser_without_capture =
     \<lparr>canvas_mounted = True, has_captureStream = False, has_MediaRecorder = True,
      isTypeSupported = (\<lambda>mt. True)\<rparr>"

definition browser_without_webm :: browser where
  "browser_without_webm =
     \<lparr>canvas_mounted = True, has_captureStream = True, has_MediaRecorder = True,
      isTypeSupported = (\<lambda>mt. False)\<rparr>"

definition browser_with_webm :: browser where
  "browser_with_webm =
     \<lparr>canvas_mounted = True, has_captureStream = True, has_MediaRecorder = True,
      isTypeSupported = (\<lambda>mt. mt = ''video/webm'')\<rparr>"

text \<open>
  The state is in step: the suspended call of \<open>handleRecord\<close>, if there is one, is where
  the status tells. None is suspended in idle, done and error; one waits for the timer in
  recording; one waits for the stop event in processing.
\<close>

definition quiet_inv :: "page \<times> pending list \<Rightarrow> bool" where
  "quiet_inv st \<longleftrightarrow>
     ((recState (fst st) = Idle \<or> recState (fst st) = Done \<or> recState (fst st) = Error) \<and> snd st = [])
   \<or> (recState (fst st) = Recording \<and> (\<exists>ms. snd st = [Waiting ms]))
   \<or> (recState (fst st) = Processing \<and> snd st = [Stopping])"

section \<open>Properties\<close>

subsection \<open>Numbers\<close>

lemma numeral_jsnum: "(numeral k :: jsnum) = Num (numeral k)"
proof (induction k)
  case One
  show ?case by (simp add: one_jsnum_def)
next
  case (Bit0 k)
  have "(numeral (num.Bit0 k) :: jsnum) = numeral k + numeral k"
    by (rule numeral.simps)
  also have "\<dots> = Num (numeral k + numeral k)"
    by (simp only: Bit0.IH plus_jsnum.simps)
  also have "numeral k + numeral k = (numeral (num.Bit0 k) :: real)"
    by (simp only: numeral.simps)
  finally show ?case .
next
  case (Bit1 k)
  have "(numeral (num.Bit1 k) :: jsnum) = numeral k + numeral k + 1"
    by (rule numeral.simps)
  also have "\<dots> = Num (numeral k + numeral k + 1)"
    by (simp only: Bit1.IH plus_jsnum.simps one_jsnum_def)
  also have "numeral k + numeral k + 1 = (numeral (num.Bit1 k) :: real)"
    by (simp only: numeral.simps)
  finally show ?case .
qed

lemma power_jsnum: "Num a ^ n = Num (a ^ n)"
  by (induction n) (simp_all add: one_jsnum_def)

lemmas jsnum_simps = numeral_jsnum power_jsnum zero_jsnum_def one_jsnum_def nat_num_def
  int_num_def Math_PI_def

subsection \<open>The generator\<close>

lemma u32_fraction:
  fixes w :: "32 word"
  shows "0 \<le> real (unat w) / 4294967296 \<and> real (unat w) / 4294967296 < 1"
proof -
  have "unat w < 2 ^ LENGTH(32)"
    by (rule unsigned_less)
  then have "unat w < 4294967296"
    by simp
  then have "real (unat w) < 4294967296"
    by linarith
  then show ?thesis
    by (simp del: of_nat_unat)
qed

lemma mulberry32_call_range:
  "\<exists>v. fst (mulberry32_call a) = Num v \<and> 0 \<le> v \<and> v < 1"
  unfolding mulberry32_call_def Let_def fst_conv
  using u32_fraction by blast

text \<open>
  C5: for every seed and every call number \<open>n\<close>, the value returned by call \<open>n\<close> of the
  generator made by \<open>mulberry32(seed)\<close> is a number \<open>v\<close> with \<open>0 \<le> v < 1\<close>. The value is
  the function \<open>mulberry32_nth\<close> of the seed and the call number alone.
\<close>

theorem mulberry32_unit_interval:
  "\<exists>v. mulberry32_nth seed n = Num v \<and> 0 \<le> v \<and> v < 1"
  unfolding mulberry32_nth_def by (rule mulberry32_call_range)

subsection \<open>The trees\<close>

text \<open>
  C2: for every count \<open>n\<close> and all dimensions \<open>W\<close> and \<open>H\<close>, the list returned by
  \<open>generateTrees(n, W, H)\<close> is sorted non-decreasing by layer.
\<close>

theorem generateTrees_sorted:
  "sorted (map layer (generateTrees n W H))"
  by (simp add: generateTrees_def)

subsection \<open>Rounding and remainder\<close>

lemmas f64_eval = f64_real_def f64_exponent_def bitlen.simps round_half_even_def Let_def

lemma bitlen_bounds:
  "0 < n \<Longrightarrow> 2 ^ (bitlen n - 1) \<le> n \<and> n < 2 ^ bitlen n"
proof (induction n rule: bitlen.induct)
  case (1 n)
  show ?case
  proof (cases "n div 2 = 0")
    case True
    with "1.prems" have "n = 1"
      by (simp add: div_eq_0_iff) 
    then show ?thesis
      by (simp add: bitlen.simps)
  next
    case False
    with "1.IH" "1.prems" have ih: "2 ^ (bitlen (n div 2) - 1) \<le> n div 2" "n div 2 < 2 ^ bitlen (n div 2)"
      by simp_all
    have b: "bitlen n = Suc (bitlen (n div 2))"
      using "1.prems" by (subst bitlen.simps) simp
    have pos: "0 < bitlen (n div 2)"
      using False by (subst bitlen.simps) simp
    then have "(2::nat) ^ bitlen (n div 2) = 2 * 2 ^ (bitlen (n div 2) - 1)"
      by (cases "bitlen (n div 2)") simp_all
    with ih have "2 ^ bitlen (n div 2) \<le> n"
      by linarith
    moreover from ih have "n < 2 * 2 ^ bitlen (n div 2)"
      by linarith
    ultimately show ?thesis
      by (simp add: b)
  qed
qed

lemma round_half_even_of_int: "round_half_even (of_int z) = z"
  by (simp add: round_half_even_def)

text \<open>
  Integers below \<open>2^53\<close> are binary64 numbers: rounding leaves them unchanged.
\<close>

lemma f64_real_of_nat:
  assumes "n < 2 ^ 53"
  shows "f64_real (real n) = real n"
proof (cases "n = 0")
  case True
  then show ?thesis by (simp add: f64_real_def)
next
  case False
  then have pos: "0 < n" by simp
  from bitlen_bounds [OF pos] assms have "(2::nat) ^ (bitlen n - 1) < 2 ^ 53"
    by linarith
  then have "bitlen n - 1 < 53"
    by (simp only: power_strict_increasing_iff) 
  then have le: "bitlen n \<le> 53" by simp
  define m where "m = 53 - bitlen n"
  have e: "f64_exponent (real n) - 52 = - int m"
    using pos le by (simp add: f64_exponent_def m_def)
  have u: "(2::real) powi (- int m) = 1 / 2 ^ m"
    by (simp add: power_int_minus field_simps)
  have q: "real n / (1 / 2 ^ m) = of_int (int (n * 2 ^ m))"
    by simp
  have "f64_real (real n) = of_int (round_half_even (real n / (1 / 2 ^ m))) * (1 / 2 ^ m)"
    using pos by (simp add: f64_real_def e u Let_def)
  also have "\<dots> = real n"
    by (simp only: q round_half_even_of_int) simp
  finally show ?thesis .
qed

text \<open>
  The exponent brackets the number: \<open>2^e \<le> |r| < 2^(e+1)\<close>. So rounding never gives zero.
\<close>

lemma f64_exponent_le:
  assumes "r \<noteq> 0"
  shows "2 powi f64_exponent r \<le> \<bar>r\<bar>"
proof (cases "1 \<le> \<bar>r\<bar>")
  case True
  define n where "n = nat \<lfloor>\<bar>r\<bar>\<rfloor>"
  from True have n1: "0 < n" and nr: "real n \<le> \<bar>r\<bar>"
    by (simp_all add: n_def)
  have e: "f64_exponent r = int (bitlen n - 1)"
    using True n1 bitlen_bounds [OF n1]
    by (cases "bitlen n") (simp_all add: f64_exponent_def n_def)
  from bitlen_bounds [OF n1] have "real (2 ^ (bitlen n - 1)) \<le> real n"
    by (simp only: of_nat_le_iff)
  then have "(2::real) ^ (bitlen n - 1) \<le> real n"
    by simp
  with nr have "(2::real) ^ (bitlen n - 1) \<le> \<bar>r\<bar>"
    by linarith
  then show ?thesis
    by (simp only: e power_int_of_nat)
next
  case False
  define c where "c = \<lceil>1 / \<bar>r\<bar>\<rceil>"
  define m where "m = nat (c - 1)"
  from False assms have inv: "1 < 1 / \<bar>r\<bar>"
    by simp
  then have c2: "2 \<le> c"
    unfolding c_def by linarith
  then have im: "int m = c - 1"
    by (simp add: m_def)
  with c2 have m1: "0 < m"
    by linarith
  from im have "real_of_int (int m) = of_int (c - 1)"
    by (simp only:)
  then have mc: "real m + 1 = of_int c"
    by simp
  have e: "f64_exponent r = - int (bitlen m)"
    using False by (simp add: f64_exponent_def m_def c_def)
  from bitlen_bounds [OF m1] have "m + 1 \<le> 2 ^ bitlen m"
    by simp
  then have "real (m + 1) \<le> real (2 ^ bitlen m)"
    by (simp only: of_nat_le_iff)
  then have "real m + 1 \<le> (2::real) ^ bitlen m"
    by simp
  then have "of_int c \<le> (2::real) ^ bitlen m"
    by (simp only: mc)
  moreover have "1 / \<bar>r\<bar> \<le> of_int c"
    unfolding c_def by (rule le_of_int_ceiling)
  ultimately have "1 / \<bar>r\<bar> \<le> 2 ^ bitlen m"
    by linarith
  with assms have "1 / 2 ^ bitlen m \<le> \<bar>r\<bar>"
    by (simp add: field_simps)
  then show ?thesis
    by (simp add: e power_int_minus field_simps)
qed

lemma f64_exponent_less:
  assumes "r \<noteq> 0"
  shows "\<bar>r\<bar> < 2 powi (f64_exponent r + 1)"
proof (cases "1 \<le> \<bar>r\<bar>")
  case True
  define n where "n = nat \<lfloor>\<bar>r\<bar>\<rfloor>"
  from True have n1: "0 < n" and fl: "\<lfloor>\<bar>r\<bar>\<rfloor> = int n"
    by (simp_all add: n_def)
  have e: "f64_exponent r + 1 = int (bitlen n)"
    using True by (simp add: f64_exponent_def n_def)
  from bitlen_bounds [OF n1] have "int n < 2 ^ bitlen n"
    by (metis of_nat_less_iff of_nat_numeral of_nat_power)
  then have "\<lfloor>\<bar>r\<bar>\<rfloor> < 2 ^ bitlen n"
    by (simp only: fl)
  then have "\<bar>r\<bar> < 2 ^ bitlen n"
    by (simp add: floor_less_iff)
  then show ?thesis
    by (simp only: e power_int_of_nat)
next
  case False
  define c where "c = \<lceil>1 / \<bar>r\<bar>\<rceil>"
  define m where "m = nat (c - 1)"
  from False assms have inv: "1 < 1 / \<bar>r\<bar>"
    by simp
  then have c2: "2 \<le> c"
    unfolding c_def by linarith
  then have im: "int m = c - 1"
    by (simp add: m_def)
  with c2 have m1: "0 < m"
    by linarith
  have e: "f64_exponent r + 1 = - int (bitlen m - 1)"
    using False bitlen_bounds [OF m1] m1
    by (cases "bitlen m") (simp_all add: f64_exponent_def m_def c_def bitlen.simps)
  have "real_of_int c < 1 / \<bar>r\<bar> + 1"
    unfolding c_def by linarith
  then have "real_of_int (int m) < 1 / \<bar>r\<bar>"
    by (simp add: im)
  then have mr: "real m < 1 / \<bar>r\<bar>"
    by simp
  from bitlen_bounds [OF m1] have "real (2 ^ (bitlen m - 1)) \<le> real m"
    by (simp only: of_nat_le_iff)
  then have "(2::real) ^ (bitlen m - 1) \<le> real m"
    by simp
  with mr have "(2::real) ^ (bitlen m - 1) < 1 / \<bar>r\<bar>"
    by linarith
  with assms have "\<bar>r\<bar> < 1 / 2 ^ (bitlen m - 1)"
    by (simp add: field_simps)
  then show ?thesis
    unfolding e by (simp add: power_int_minus field_simps)
qed






lemma js_trunc_shift:
  "js_trunc q = js_trunc (q - 1) + 1 \<longleftrightarrow> \<not> (0 < q \<and> q < 1)"
proof (cases "0 < q \<and> q < 1")
  case True
  then have "js_trunc q = 0" "js_trunc (q - 1) = 0"
    by (simp_all add: js_trunc_def floor_eq_iff ceiling_eq_iff)
  with True show ?thesis by simp
next
  case False
  then consider "q \<le> 0" | "1 \<le> q" by linarith
  then have "js_trunc q = js_trunc (q - 1) + 1"
  proof cases
    case 1
    then show ?thesis by (simp add: js_trunc_def)
  next
    case 2
    then show ?thesis by (simp add: js_trunc_def) 
  qed
  with False show ?thesis by simp
qed

text \<open>Rounding moves a number by at most half a unit of the last place.\<close>

lemma round_half_even_error: "\<bar>of_int (round_half_even q) - q\<bar> \<le> 1 / 2"
  unfolding round_half_even_def Let_def by (auto; linarith)

text \<open>The relative error of rounding is at most \<open>2^-53\<close>.\<close>

lemma f64_real_error: "\<bar>f64_real r - r\<bar> * 9007199254740992 \<le> \<bar>r\<bar>"
proof (cases "r = 0")
  case True
  then show ?thesis by (simp add: f64_real_def)
next
  case False
  define e where "e = f64_exponent r"
  define u :: real where "u = 2 powi (e - 52)"
  have u0: "0 < u"
    by (simp add: u_def)
  have f: "f64_real r = of_int (round_half_even (r / u)) * u"
    using False by (simp add: f64_real_def Let_def e_def u_def)
  have "f64_real r - r = (of_int (round_half_even (r / u)) - r / u) * u"
    using u0 by (simp add: f field_simps)
  then have "\<bar>f64_real r - r\<bar> = \<bar>of_int (round_half_even (r / u)) - r / u\<bar> * u"
    using u0 by (simp add: abs_mult)
  also have "\<dots> \<le> 1 / 2 * u"
    using u0 round_half_even_error [of "r / u"] by (intro mult_right_mono) simp_all
  finally have a: "\<bar>f64_real r - r\<bar> \<le> u / 2"
    by simp
  have "u * 2 ^ 52 = 2 powi e"
    by (simp add: u_def power_int_diff) 
  moreover have "2 powi e \<le> \<bar>r\<bar>"
    unfolding e_def by (rule f64_exponent_le [OF False])
  ultimately have b: "u * 4503599627370496 \<le> \<bar>r\<bar>"
    by simp
  define d where "d = \<bar>f64_real r - r\<bar>"
  from a have "d \<le> u / 2"
    by (simp only: d_def)
  with b have "d * 9007199254740992 \<le> \<bar>r\<bar>"
    by linarith
  then show ?thesis
    by (simp only: d_def)
qed

text \<open>Doubling a number is exact.\<close>

lemma f64_exponent_unique:
  assumes "2 powi a \<le> \<bar>r\<bar>" and "\<bar>r\<bar> < 2 powi (a + 1)"
  shows "f64_exponent r = a"
proof -
  have r: "r \<noteq> 0"
  proof
    assume "r = 0"
    with assms(1) have "(2::real) powi a \<le> 0" by simp
    moreover have "(0::real) < 2 powi a" by simp
    ultimately show False by linarith
  qed
  have l1: "(2::real) powi a < 2 powi (f64_exponent r + 1)"
    using assms(1) f64_exponent_less [OF r] by linarith
  have 1: "a < f64_exponent r + 1"
  proof (rule ccontr)
    assume "\<not> a < f64_exponent r + 1"
    then have "f64_exponent r + 1 \<le> a"
      by simp
    then have "(2::real) powi (f64_exponent r + 1) \<le> 2 powi a"
      by (rule power_int_increasing) simp
    with l1 show False
      by linarith
  qed
  have l2: "(2::real) powi f64_exponent r < 2 powi (a + 1)"
    using assms(2) f64_exponent_le [OF r] by linarith
  have 2: "f64_exponent r < a + 1"
  proof (rule ccontr)
    assume "\<not> f64_exponent r < a + 1"
    then have "a + 1 \<le> f64_exponent r"
      by simp
    then have "(2::real) powi (a + 1) \<le> 2 powi f64_exponent r"
      by (rule power_int_increasing) simp
    with l2 show False
      by linarith
  qed
  from 1 2 show ?thesis by linarith
qed

lemma f64_real_double: "f64_real (2 * r) = 2 * f64_real r"
proof (cases "r = 0")
  case True
  then show ?thesis by (simp add: f64_real_def)
next
  case False
  have a: "2 powi (f64_exponent r + 1) \<le> \<bar>2 * r\<bar>"
    using f64_exponent_le [OF False] by (simp add: power_int_add)
  have b: "\<bar>2 * r\<bar> < 2 powi (f64_exponent r + 1 + 1)"
    using f64_exponent_less [OF False] by (simp add: power_int_add)
  have e: "f64_exponent (2 * r) = f64_exponent r + 1"
    by (rule f64_exponent_unique [OF a b])
  have "(2::real) powi (f64_exponent r + 1 - 52) = 2 * 2 powi (f64_exponent r - 52)"
    by (simp add: power_int_add power_int_diff)
  then show ?thesis
    using False by (simp add: f64_real_def Let_def e)
qed

text \<open>The remainder is smaller than the divisor.\<close>

lemma js_rem_bound:
  assumes "b \<noteq> 0"
  shows "\<bar>a - b * of_int (js_trunc (a / b))\<bar> < \<bar>b\<bar>"
proof -
  define q where "q = a / b"
  have "\<bar>q - of_int (js_trunc q)\<bar> < 1"
    unfolding js_trunc_def by (cases "0 \<le> q") (simp_all; linarith)+
  then have "\<bar>q - of_int (js_trunc q)\<bar> * \<bar>b\<bar> < 1 * \<bar>b\<bar>"
    using assms by (intro mult_strict_right_mono) simp_all
  moreover have "(q - of_int (js_trunc q)) * b = a - b * of_int (js_trunc (a / b))"
    using assms by (simp add: q_def field_simps)
  ultimately show ?thesis
    by (simp add: abs_mult [symmetric])
qed

subsection \<open>The generator state and the loop of generateTrees\<close>

lemma mulberry32_call_snd: "snd (mulberry32_call a) = f64 (a + 1831565813)"
  by (simp add: mulberry32_call_def Let_def)

lemma mulberry32_state_add:
  "mulberry32_state (mulberry32_state a j) k = mulberry32_state a (j + k)"
  by (induction k) simp_all

lemma mulberry32_nth_add:
  "mulberry32_nth (mulberry32_state a j) k = mulberry32_nth a (j + k)"
  by (simp add: mulberry32_nth_def mulberry32_state_add)

lemma mulberry32_nth_range:
  "\<exists>v. mulberry32_nth a k = Num v \<and> 0 \<le> v \<and> v < 1"
  unfolding mulberry32_nth_def by (rule mulberry32_call_range)

text \<open>
  While the state stays below \<open>2^53\<close> the additions are exact.
\<close>

lemma mulberry32_state_exact:
  "s + k * 1831565813 < 2 ^ 53 \<Longrightarrow>
   mulberry32_state (Num (real s)) k = Num (real (s + k * 1831565813))"
proof (induction k)
  case 0
  show ?case by simp
next
  case (Suc k)
  then have ih: "mulberry32_state (Num (real s)) k = Num (real (s + k * 1831565813))"
    by simp
  have st: "Num (real (s + k * 1831565813)) + 1831565813 = Num (real (s + Suc k * 1831565813))"
    by (simp add: jsnum_simps)
  have "mulberry32_state (Num (real s)) (Suc k) = f64 (mulberry32_state (Num (real s)) k + 1831565813)"
    by (simp only: mulberry32_state.simps mulberry32_call_snd)
  also have "\<dots> = f64 (Num (real (s + Suc k * 1831565813)))"
    by (simp only: ih st)
  also have "\<dots> = Num (real (s + Suc k * 1831565813))"
    using f64_real_of_nat [OF Suc.prems] by (simp only: f64.simps)
  finally show ?case .
qed

lemma mulberry32_call_nat:
  assumes "n + 1831565813 < 2 ^ 53"
  shows "mulberry32_call (Num (real n)) =
     (let t0 = (word_of_nat (n + 1831565813) :: 32 word);
          t1 = (t0 XOR drop_bit 15 t0) * (t0 OR 1);
          t2 = t1 XOR (t1 + (t1 XOR drop_bit 7 t1) * (t1 OR 61))
      in (Num (real (unat (t2 XOR drop_bit 14 t2)) / 4294967296), Num (real (n + 1831565813))))"
proof -
  have a: "Num (real n) + 1831565813 = Num (real (n + 1831565813))"
    by (simp add: jsnum_simps)
  have b: "f64 (Num (real (n + 1831565813))) = Num (real (n + 1831565813))"
    using f64_real_of_nat [OF assms] by (simp only: f64.simps)
  have c: "to_int32 (Num (real (n + 1831565813))) = word_of_nat (n + 1831565813)"
    by (simp add: js_trunc_def)
  show ?thesis
    unfolding mulberry32_call_def Let_def a b c ..
qed

lemma mulberry32_nth_nat:
  assumes "s + Suc k * 1831565813 < 2 ^ 53"
  shows "mulberry32_nth (Num (real s)) k =
     (let t0 = (word_of_nat (s + Suc k * 1831565813) :: 32 word);
          t1 = (t0 XOR drop_bit 15 t0) * (t0 OR 1);
          t2 = t1 XOR (t1 + (t1 XOR drop_bit 7 t1) * (t1 OR 61))
      in Num (real (unat (t2 XOR drop_bit 14 t2)) / 4294967296))"
proof -
  from assms have 1: "s + k * 1831565813 < 2 ^ 53" and 2: "(s + k * 1831565813) + 1831565813 < 2 ^ 53"
    by simp_all
  have 3: "s + k * 1831565813 + 1831565813 = s + Suc k * 1831565813"
    by simp
  show ?thesis
    unfolding mulberry32_nth_def mulberry32_state_exact [OF 1] mulberry32_call_nat [OF 2] 3
    by (simp only: Let_def fst_conv)
qed

lemma nth_0: "mulberry32_nth (Num 123456) 0 = Num (821053959 / 2147483648)"
proof -
  have "mulberry32_nth (Num 123456) 0 = mulberry32_nth (Num (real 123456)) 0"
    by simp
  also have "\<dots> = Num (821053959 / 2147483648)"
    by (subst mulberry32_nth_nat) (simp_all add: Let_def)
  finally show ?thesis .
qed

lemma nth_82: "mulberry32_nth (Num 123456) 82 = Num (513748979 / 536870912)"
proof -
  have "mulberry32_nth (Num 123456) 82 = mulberry32_nth (Num (real 123456)) 82"
    by simp
  also have "\<dots> = Num (513748979 / 536870912)"
    by (subst mulberry32_nth_nat) (simp_all add: Let_def)
  finally show ?thesis .
qed

lemma nth_117: "mulberry32_nth (Num 123456) 117 = Num (93194793 / 4294967296)"
proof -
  have "mulberry32_nth (Num 123456) 117 = mulberry32_nth (Num (real 123456)) 117"
    by simp
  also have "\<dots> = Num (93194793 / 4294967296)"
    by (subst mulberry32_nth_nat) (simp_all add: Let_def)
  finally show ?thesis .
qed

lemma mulberry32_state_unfold:
  "mulberry32_state a 0 = a"
  "mulberry32_state a 1 = snd (mulberry32_call a)"
  "mulberry32_state a 2 = snd (mulberry32_call (snd (mulberry32_call a)))"
  "mulberry32_state a 3 = snd (mulberry32_call (snd (mulberry32_call (snd (mulberry32_call a)))))"
  "mulberry32_state a 4 = snd (mulberry32_call (snd (mulberry32_call (snd (mulberry32_call (snd (mulberry32_call a)))))))"
  "mulberry32_state a 5 = snd (mulberry32_call (snd (mulberry32_call (snd (mulberry32_call (snd (mulberry32_call (snd (mulberry32_call a)))))))))"
  by (simp_all add: eval_nat_numeral)

lemma make_tree_snd: "snd (make_tree i W H a) = mulberry32_state a 5"
  unfolding make_tree_def Let_def case_prod_beta snd_conv mulberry32_state_unfold ..

lemma make_tree_fst:
  "fst (make_tree i W H a) =
     \<lparr>tree_x = mulberry32_nth a 0 * W * 2 - W * 0.5,
      baseY = H * (0.65 + nat_num (i mod 3) * 0.08) + (mulberry32_nth a 1 - 0.5) * 20,
      height = H * (0.12 + nat_num (i mod 3) * 0.08) * (0.8 + mulberry32_nth a 2 * 0.4),
      width = H * (0.12 + nat_num (i mod 3) * 0.08) * (0.8 + mulberry32_nth a 2 * 0.4)
                * (0.06 + mulberry32_nth a 3 * 0.04),
      layer = i mod 3,
      hue = 115 + nat_num (i mod 3) * 10 + mulberry32_nth a 4 * 10\<rparr>"
  unfolding make_tree_def Let_def case_prod_beta fst_conv mulberry32_nth_def mulberry32_state_unfold ..

lemma layer_make_tree: "layer (fst (make_tree j W H a)) = j mod 3"
  by (simp add: make_tree_fst)

lemma height_make_tree:
  "height (fst (make_tree j W H a)) = H * (0.12 + nat_num (j mod 3) * 0.08) * (0.8 + mulberry32_nth a 2 * 0.4)"
  by (simp add: make_tree_fst)

lemma tree_x_make_tree:
  "tree_x (fst (make_tree j W H a)) = mulberry32_nth a 0 * W * 2 - W * 0.5"
  by (simp add: make_tree_fst)

text \<open>
  The tree pushed for index \<open>j\<close>: the generator has been called \<open>5 * j\<close> times before.
\<close>

lemma generateTrees_loop_eq:
  "generateTrees_loop i n W H a acc =
     acc @ map (\<lambda>j. fst (make_tree (i + j) W H (mulberry32_state a (5 * j)))) [0..<n - i]"
proof (induction i n W H a acc rule: generateTrees_loop.induct)
  case (1 i n W H a acc)
  show ?case
  proof (cases "i < n")
    case False
    then show ?thesis
      by (subst generateTrees_loop.simps) simp
  next
    case True
    define tr where "tr = fst (make_tree i W H a)"
    define a' where "a' = snd (make_tree i W H a)"
    have mt: "make_tree i W H a = (tr, a')"
      by (simp add: tr_def a'_def)
    have "generateTrees_loop i n W H a acc = generateTrees_loop (Suc i) n W H a' (acc @ [tr])"
      using True by (subst generateTrees_loop.simps) (simp add: mt)
    also have "\<dots> = (acc @ [tr]) @
        map (\<lambda>j. fst (make_tree (Suc i + j) W H (mulberry32_state a' (5 * j)))) [0..<n - Suc i]"
      using "1.IH" [OF True mt [symmetric] refl] .
    also have "map (\<lambda>j. fst (make_tree (Suc i + j) W H (mulberry32_state a' (5 * j)))) [0..<n - Suc i]
        = map (\<lambda>j. fst (make_tree (i + j) W H (mulberry32_state a (5 * j)))) (map Suc [0..<n - Suc i])"
      by (simp add: a'_def make_tree_snd mulberry32_state_add)
    also have "map Suc [0..<n - Suc i] = [Suc 0..<n - i]"
      using True by (simp add: map_Suc_upt Suc_diff_Suc)
    finally have "generateTrees_loop i n W H a acc = acc @
        map (\<lambda>j. fst (make_tree (i + j) W H (mulberry32_state a (5 * j)))) (0 # [Suc 0..<n - i])"
      by (simp add: tr_def)
    moreover have "0 # [Suc 0..<n - i] = [0..<n - i]"
      using True by (simp add: upt_conv_Cons)
    ultimately show ?thesis
      by simp
  qed
qed

lemma generateTrees_set:
  "set (generateTrees n W H) = (\<lambda>j. fst (make_tree j W H (mulberry32_state 123456 (5 * j)))) ` {0..<n}"
  by (simp add: generateTrees_def generateTrees_loop_eq)

text \<open>
  The 24 trees of the page, in the order returned: eight of each layer.
\<close>

lemma generateTrees_24:
  "generateTrees 24 W H =
     map (\<lambda>j. fst (make_tree j W H (mulberry32_state 123456 (5 * j))))
       [0, 3, 6, 9, 12, 15, 18, 21, 1, 4, 7, 10, 13, 16, 19, 22, 2, 5, 8, 11, 14, 17, 20, 23]"
proof -
  have u: "[0..<24] = [0, 1, 2, 3, 4, 5, 6, 7, 8, 9, 10, 11, 12, 13, 14, 15, 16, 17, 18, 19, 20, 21, 22, 23 :: nat]"
    by (simp add: upt_rec)
  show ?thesis
    unfolding generateTrees_def generateTrees_loop_eq
    by (simp add: u layer_make_tree del: upt.simps)
qed

lemma first_tree:
  "layer (generateTrees 24 (Num 1280) (Num 720) ! 0) = 0
   \<and> tree_x (generateTrees 24 (Num 1280) (Num 720) ! 0) = Num (1420915235 / 4194304)"
proof -
  have t0: "generateTrees 24 (Num 1280) (Num 720) ! 0 = fst (make_tree 0 (Num 1280) (Num 720) (mulberry32_state 123456 0))"
    by (simp add: generateTrees_24)
  show ?thesis
    unfolding t0 tree_x_make_tree layer_make_tree mulberry32_nth_add
    by (simp add: nth_0 jsnum_simps)
qed

lemma tree_shape:
  assumes "t \<in> set (generateTrees n W (Num h))"
  shows "layer t < 3 \<and> (\<exists>r2 r3. 0 \<le> r2 \<and> r2 < 1 \<and> 0 \<le> r3 \<and> r3 < 1
      \<and> baseY t = Num (h * (0.65 + real (layer t) * 0.08) + (r2 - 0.5) * 20)
      \<and> height t = Num (h * (0.12 + real (layer t) * 0.08) * (0.8 + r3 * 0.4)))"
proof -
  from assms obtain j where t: "t = fst (make_tree j W (Num h) (mulberry32_state 123456 (5 * j)))"
    unfolding generateTrees_set by blast
  define a where "a = mulberry32_state 123456 (5 * j)"
  obtain r2 where r2: "mulberry32_nth a 1 = Num r2" "0 \<le> r2" "r2 < 1"
    using mulberry32_nth_range [of a 1] by blast
  obtain r3 where r3: "mulberry32_nth a 2 = Num r3" "0 \<le> r3" "r3 < 1"
    using mulberry32_nth_range [of a 2] by blast
  have "layer t = j mod 3"
    by (simp add: t make_tree_fst)
  moreover have "baseY t = Num (h * (0.65 + real (j mod 3) * 0.08) + (r2 - 0.5) * 20)"
    unfolding t a_def [symmetric] make_tree_fst select_convs r2(1)
    by (simp add: jsnum_simps)
  moreover have "height t = Num (h * (0.12 + real (j mod 3) * 0.08) * (0.8 + r3 * 0.4))"
    unfolding t a_def [symmetric] make_tree_fst select_convs r3(1)
    by (simp add: jsnum_simps)
  ultimately show ?thesis
    using r2 r3 by auto
qed

text \<open>
  C8, as the code has it. For two descriptors of one call with a surface height \<open>h\<close>, the
  first in a strictly farther layer: the base position of the nearer one is strictly
  greater when \<open>h\<close> is at least 250; each height is \<open>h * (0.12 + 0.08 * layer)\<close> times a
  random factor in \<open>[0.8, 1.2)\<close>; so a tree of layer 0 is strictly shorter than every
  nearer tree when \<open>h\<close> is positive, while the heights of layers 1 and 2 overlap.
\<close>

theorem depth_scaling:
  assumes "t1 \<in> set (generateTrees n W (Num h))" and "t2 \<in> set (generateTrees n W (Num h))"
    and "layer t1 < layer t2"
  shows "(250 \<le> h \<longrightarrow> js_lt (baseY t1) (baseY t2))
     \<and> (0 < h \<and> layer t1 = 0 \<longrightarrow> js_lt (height t1) (height t2))
     \<and> (\<exists>k1 k2. 0.8 \<le> k1 \<and> k1 < 1.2 \<and> 0.8 \<le> k2 \<and> k2 < 1.2
           \<and> height t1 = Num (h * (0.12 + real (layer t1) * 0.08) * k1)
           \<and> height t2 = Num (h * (0.12 + real (layer t2) * 0.08) * k2))"
proof -
  from tree_shape [OF assms(1)] obtain r2 r3 where
    1: "layer t1 < 3" "0 \<le> r2" "r2 < 1" "0 \<le> r3" "r3 < 1"
      "baseY t1 = Num (h * (0.65 + real (layer t1) * 0.08) + (r2 - 0.5) * 20)"
      "height t1 = Num (h * (0.12 + real (layer t1) * 0.08) * (0.8 + r3 * 0.4))"
    by blast
  from tree_shape [OF assms(2)] obtain s2 s3 where
    2: "layer t2 < 3" "0 \<le> s2" "s2 < 1" "0 \<le> s3" "s3 < 1"
      "baseY t2 = Num (h * (0.65 + real (layer t2) * 0.08) + (s2 - 0.5) * 20)"
      "height t2 = Num (h * (0.12 + real (layer t2) * 0.08) * (0.8 + s3 * 0.4))"
    by blast
  define d where "d = real (layer t2) - real (layer t1)"
  from assms(3) have d1: "1 \<le> d"
    by (simp add: d_def)
  have base: "js_lt (baseY t1) (baseY t2)" if "250 \<le> h"
  proof -
    define p where "p = h * d"
    define A1 where "A1 = h * (0.65 + real (layer t1) * 0.08)"
    define A2 where "A2 = h * (0.65 + real (layer t2) * 0.08)"
    define g where "g = A2 - A1"
    from that d1 have "250 * 1 \<le> h * d"
      by (intro mult_mono) simp_all
    then have "250 \<le> p"
      by (simp add: p_def)
    then have "20 \<le> p * 0.08"
      by simp
    moreover have "g = p * 0.08"
      by (simp add: g_def A1_def A2_def p_def d_def algebra_simps)
    ultimately have "20 \<le> g"
      by simp
    then have "A1 + (r2 - 0.5) * 20 < A2 + (s2 - 0.5) * 20"
      using 1(3) 2(2) by (simp add: g_def)
    then have "h * (0.65 + real (layer t1) * 0.08) + (r2 - 0.5) * 20
                   < h * (0.65 + real (layer t2) * 0.08) + (s2 - 0.5) * 20"
      by (simp only: A1_def A2_def)
    then show ?thesis
      by (simp only: 1(6) 2(6) js_lt.simps)
  qed
  have high: "js_lt (height t1) (height t2)" if "0 < h" and "layer t1 = 0"
  proof -
    from assms(3) that(2) have "1 \<le> real (layer t2)"
      by simp
    then have c2: "0.2 \<le> 0.12 + real (layer t2) * 0.08"
      by simp
    have "h * 0.12 * (0.8 + r3 * 0.4) < h * 0.12 * 1.2"
      using that(1) 1(5) by (intro mult_strict_left_mono) simp_all
    also have "\<dots> < h * 0.2 * 0.8"
      using that(1) by simp
    also have "\<dots> \<le> h * (0.12 + real (layer t2) * 0.08) * 0.8"
      using that(1) c2 by simp
    also have "\<dots> \<le> h * (0.12 + real (layer t2) * 0.08) * (0.8 + s3 * 0.4)"
      using that(1) c2 2(4) by (intro mult_left_mono) simp_all
    finally show ?thesis
      by (simp add: 1(7) 2(7) that(2))
  qed
  have "0.8 \<le> 0.8 + r3 * 0.4" "0.8 + r3 * 0.4 < 1.2" "0.8 \<le> 0.8 + s3 * 0.4" "0.8 + s3 * 0.4 < 1.2"
    using 1(4,5) 2(4,5) by simp_all
  with 1(7) 2(7) have "\<exists>k1 k2. 0.8 \<le> k1 \<and> k1 < 1.2 \<and> 0.8 \<le> k2 \<and> k2 < 1.2
           \<and> height t1 = Num (h * (0.12 + real (layer t1) * 0.08) * k1)
           \<and> height t2 = Num (h * (0.12 + real (layer t2) * 0.08) * k2)"
    by blast
  with base high show ?thesis
    by blast
qed

text \<open>
  The theorem at the first trees of layers 0 and 1 of the page (1280 by 720).
\<close>

theorem depth_scaling_witness:
  "generateTrees 24 (Num 1280) (Num 720) ! 0 \<in> set (generateTrees 24 (Num 1280) (Num 720))
   \<and> generateTrees 24 (Num 1280) (Num 720) ! 8 \<in> set (generateTrees 24 (Num 1280) (Num 720))
   \<and> layer (generateTrees 24 (Num 1280) (Num 720) ! 0) = 0
   \<and> layer (generateTrees 24 (Num 1280) (Num 720) ! 8) = 1
   \<and> (250 :: real) \<le> 720
   \<and> js_lt (baseY (generateTrees 24 (Num 1280) (Num 720) ! 0)) (baseY (generateTrees 24 (Num 1280) (Num 720) ! 8))
   \<and> js_lt (height (generateTrees 24 (Num 1280) (Num 720) ! 0)) (height (generateTrees 24 (Num 1280) (Num 720) ! 8))"
proof -
  let ?ts = "generateTrees 24 (Num 1280) (Num 720)"
  have len: "length ?ts = 24"
    by (simp add: generateTrees_24)
  have m0: "?ts ! 0 \<in> set ?ts" and m8: "?ts ! 8 \<in> set ?ts"
    by (simp_all add: len)
  have l0: "layer (?ts ! 0) = 0" and l8: "layer (?ts ! 8) = 1"
    by (simp_all add: generateTrees_24 layer_make_tree)
  then have lt: "layer (?ts ! 0) < layer (?ts ! 8)"
    by simp
  have h: "(250 :: real) \<le> 720" "(0 :: real) < 720"
    by simp_all
  from depth_scaling [OF m0 m8 lt] m0 m8 l0 l8 h show ?thesis
    by blast
qed

text \<open>
  The claim C8 as stated fails on the trees of the page: the tree at position 23 is in
  layer 2, the tree at position 13 in layer 1, and the nearer one is the shorter
  (about 163.03 against 170.32).
\<close>

theorem nearer_tree_shorter:
  "layer (generateTrees 24 (Num 1280) (Num 720) ! 13) = 1
   \<and> layer (generateTrees 24 (Num 1280) (Num 720) ! 23) = 2
   \<and> height (generateTrees 24 (Num 1280) (Num 720) ! 13) = Num (14287417227 / 83886080)
   \<and> height (generateTrees 24 (Num 1280) (Num 720) ! 23) = Num (109407430251 / 671088640)
   \<and> js_lt (height (generateTrees 24 (Num 1280) (Num 720) ! 23)) (height (generateTrees 24 (Num 1280) (Num 720) ! 13))"
proof -
  have t13: "generateTrees 24 (Num 1280) (Num 720) ! 13 = fst (make_tree 16 (Num 1280) (Num 720) (mulberry32_state 123456 80))"
    by (simp add: generateTrees_24)
  have t23: "generateTrees 24 (Num 1280) (Num 720) ! 23 = fst (make_tree 23 (Num 1280) (Num 720) (mulberry32_state 123456 115))"
    by (simp add: generateTrees_24)
  have h13: "height (generateTrees 24 (Num 1280) (Num 720) ! 13) = Num (14287417227 / 83886080)"
    unfolding t13 height_make_tree mulberry32_nth_add
    by (simp add: nth_82 jsnum_simps)
  have h23: "height (generateTrees 24 (Num 1280) (Num 720) ! 23) = Num (109407430251 / 671088640)"
    unfolding t23 height_make_tree mulberry32_nth_add
    by (simp add: nth_117 jsnum_simps)
  show ?thesis
    unfolding h13 h23 by (simp add: t13 t23 layer_make_tree)
qed

subsection \<open>The scroll of the trees\<close>

lemma js_index_speed:
  assumes "layer tr < 3"
  shows "js_index [8, 16, 32] (layer tr) = Num ([8, 16, 32] ! layer tr) \<and> (0 :: real) < [8, 16, 32] ! layer tr"
proof -
  from assms consider "layer tr = 0" | "layer tr = 1" | "layer tr = 2" by linarith
  then show ?thesis
    by cases (simp_all add: js_index_def jsnum_simps)
qed

lemma tree_px_exact:
  assumes "W \<noteq> 0" and "js_index [8, 16, 32] (layer tr) = Num s" and "tree_x tr = Num x"
  shows "tree_px exact (Num W) tr (Num t)
     = Num (x - t * s - W * 2 * of_int (js_trunc ((x - t * s) / (W * 2))) + W)"
  unfolding tree_px_def Let_def assms(2,3) exact_def
  using assms(1) by (simp add: jsnum_simps)

lemma tree_px_f64:
  assumes "f64_real W = W" and "W \<noteq> 0" and "js_index [8, 16, 32] (layer tr) = Num s"
    and "tree_x tr = Num x" and "d = f64_real (x - f64_real (t * s))"
  shows "tree_px f64 (Num W) tr (Num t)
     = Num (f64_real (d - 2 * W * of_int (js_trunc (d / (2 * W))) + W))"
proof -
  have "f64_real (W * 2) = f64_real (2 * W)"
    by (simp only: mult.commute)
  also have "\<dots> = 2 * W"
    by (simp only: f64_real_double assms(1))
  finally have m: "f64 (Num W * 2) = Num (2 * W)"
    by (simp add: jsnum_simps)
  show ?thesis
    unfolding tree_px_def Let_def assms(3,4) m
    using assms(2) by (simp add: jsnum_simps assms(5))
qed

text \<open>
  The dividend of the remainder one period later, all operations rounded: it is the
  dividend at \<open>e\<close> less \<open>2 * W\<close>, up to the rounding errors of the seven operations.
\<close>

lemma scroll_rounding:
  fixes x e s W :: real
  assumes s: "0 < s"
  defines "d \<equiv> f64_real (x - f64_real (e * s))"
    and "d' \<equiv> f64_real (x - f64_real (f64_real (e + f64_real (2 * W / s)) * s))"
  shows "\<bar>d' - d + 2 * W\<bar> * 9007199254740992 \<le> 2 * \<bar>x\<bar> + 10 * (\<bar>e\<bar> * s) + 30 * \<bar>W\<bar>"
proof -
  define A where "A = e * s"
  define a where "a = f64_real A"
  define Q where "Q = 2 * W / s"
  define P where "P = f64_real Q"
  define t where "t = f64_real (e + P)"
  define B where "B = t * s"
  define b where "b = f64_real B"
  have d: "d = f64_real (x - a)" and d': "d' = f64_real (x - b)"
    by (simp_all only: d_def d'_def a_def A_def b_def B_def t_def P_def Q_def)
  have h1: "\<bar>a - A\<bar> * 9007199254740992 \<le> \<bar>A\<bar>"
    unfolding a_def by (rule f64_real_error)
  have h2: "\<bar>d - (x - a)\<bar> * 9007199254740992 \<le> \<bar>x - a\<bar>"
    unfolding d by (rule f64_real_error)
  have g1: "\<bar>d - (x - A)\<bar> * 9007199254740992 \<le> \<bar>x\<bar> + 3 * \<bar>A\<bar>"
    using h1 h2 by argo
  have h3: "\<bar>P - Q\<bar> * 9007199254740992 \<le> \<bar>Q\<bar>"
    unfolding P_def by (rule f64_real_error)
  have h4: "\<bar>t - (e + P)\<bar> * 9007199254740992 \<le> \<bar>e + P\<bar>"
    unfolding t_def by (rule f64_real_error)
  have g2: "\<bar>t - (e + Q)\<bar> * 9007199254740992 \<le> \<bar>e\<bar> + 3 * \<bar>Q\<bar>"
    using h3 h4 by argo
  have g3: "\<bar>B - (A + 2 * W)\<bar> * 9007199254740992 \<le> \<bar>A\<bar> + 6 * \<bar>W\<bar>"
  proof -
    have "B - (A + 2 * W) = (t - (e + Q)) * s"
      using s by (simp add: B_def A_def Q_def field_simps)
    then have 1: "\<bar>B - (A + 2 * W)\<bar> = \<bar>t - (e + Q)\<bar> * s"
      using s by (simp add: abs_mult)
    have 2: "\<bar>e\<bar> * s = \<bar>A\<bar>"
      using s by (simp add: A_def abs_mult)
    have 3: "\<bar>Q\<bar> * s = 2 * \<bar>W\<bar>"
      using s by (simp add: Q_def abs_mult)
    from g2 s have "\<bar>t - (e + Q)\<bar> * 9007199254740992 * s \<le> (\<bar>e\<bar> + 3 * \<bar>Q\<bar>) * s"
      by (intro mult_right_mono) simp_all
    then have "\<bar>t - (e + Q)\<bar> * s * 9007199254740992 \<le> \<bar>e\<bar> * s + 3 * (\<bar>Q\<bar> * s)"
      by (simp add: algebra_simps)
    then show ?thesis
      by (simp only: 1 2 3)
  qed
  have h5: "\<bar>b - B\<bar> * 9007199254740992 \<le> \<bar>B\<bar>"
    unfolding b_def by (rule f64_real_error)
  have g4: "\<bar>b - (A + 2 * W)\<bar> * 9007199254740992 \<le> 3 * \<bar>A\<bar> + 14 * \<bar>W\<bar>"
    using h5 g3 by argo
  have h6: "\<bar>d' - (x - b)\<bar> * 9007199254740992 \<le> \<bar>x - b\<bar>"
    unfolding d' by (rule f64_real_error)
  have g5: "\<bar>d' - (x - A - 2 * W)\<bar> * 9007199254740992 \<le> \<bar>x\<bar> + 7 * \<bar>A\<bar> + 30 * \<bar>W\<bar>"
    using h6 g4 by argo
  have "\<bar>A\<bar> = \<bar>e\<bar> * s"
    using s by (simp add: A_def abs_mult)
  with g1 g5 show ?thesis
    by argo
qed

lemma tree_px_exact_period:
  assumes "W \<noteq> 0" and "js_index [8, 16, 32] (layer tr) = Num s" and "0 < s" and "tree_x tr = Num x"
  shows "(tree_px exact (Num W) tr (Num e) = tree_px exact (Num W) tr (Num (e + 2 * W / s))
          \<longleftrightarrow> \<not> (0 < (x - e * s) / (2 * W) \<and> (x - e * s) / (2 * W) < 1))
     \<and> (0 < (x - e * s) / (2 * W) \<and> (x - e * s) / (2 * W) < 1
          \<longrightarrow> tree_px exact (Num W) tr (Num e)
              = tree_px exact (Num W) tr (Num (e + 2 * W / s)) + Num (2 * W))"
proof -
  define y where "y = x - e * s"
  define q where "q = y / (W * 2)"
  have y': "x - (e + 2 * W / s) * s = y - 2 * W"
    using assms(3) by (simp add: y_def field_simps)
  have q': "(y - 2 * W) / (W * 2) = q - 1"
    using assms(1) by (simp add: q_def field_simps)
  have p1: "tree_px exact (Num W) tr (Num e) = Num (y - W * 2 * of_int (js_trunc q) + W)"
    unfolding tree_px_exact [OF assms(1,2,4)] y_def q_def ..
  have p2: "tree_px exact (Num W) tr (Num (e + 2 * W / s))
      = Num (y - 2 * W - W * 2 * of_int (js_trunc (q - 1)) + W)"
    unfolding tree_px_exact [OF assms(1,2,4)] y' q' ..
  have "y - W * 2 * of_int (js_trunc q) + W = y - 2 * W - W * 2 * of_int (js_trunc (q - 1)) + W
      \<longleftrightarrow> W * 2 * (real_of_int (js_trunc q) - real_of_int (js_trunc (q - 1) + 1)) = 0"
    by (auto simp add: algebra_simps)
  also have "\<dots> \<longleftrightarrow> real_of_int (js_trunc q) = real_of_int (js_trunc (q - 1) + 1)"
    using assms(1) by simp
  also have "\<dots> \<longleftrightarrow> js_trunc q = js_trunc (q - 1) + 1"
    by (simp only: of_int_eq_iff)
  also have "\<dots> \<longleftrightarrow> \<not> (0 < q \<and> q < 1)"
    by (rule js_trunc_shift)
  finally have main: "y - W * 2 * of_int (js_trunc q) + W = y - 2 * W - W * 2 * of_int (js_trunc (q - 1)) + W
      \<longleftrightarrow> \<not> (0 < q \<and> q < 1)" .
  have qq: "(x - e * s) / (2 * W) = q"
    by (simp add: q_def y_def mult.commute)
  have between: "tree_px exact (Num W) tr (Num e)
      = tree_px exact (Num W) tr (Num (e + 2 * W / s)) + Num (2 * W)" if "0 < q \<and> q < 1"
  proof -
    from that have "js_trunc q = 0" "js_trunc (q - 1) = 0"
      by (simp_all add: js_trunc_def floor_eq_iff ceiling_eq_iff)
    then show ?thesis
      by (simp add: p1 p2)
  qed
  show ?thesis
    using between by (simp only: p1 p2 jsnum.inject main qq) simp
qed

lemma tree_px_f64_period:
  assumes "W \<noteq> 0" and "f64_real W = W" and "js_index [8, 16, 32] (layer tr) = Num s" and "0 < s"
    and "tree_x tr = Num x"
  shows "\<exists>p p' j. tree_px f64 (Num W) tr (Num e) = Num p
     \<and> tree_px f64 (Num W) tr (f64 (Num e + f64 (Num (2 * W) / Num s))) = Num p'
     \<and> \<bar>p - p' - 2 * W * of_int j\<bar> \<le> (\<bar>x\<bar> + \<bar>e\<bar> * s + 2 * \<bar>W\<bar>) / 2 ^ 48"
proof -
  define t where "t = f64_real (e + f64_real (2 * W / s))"
  define d where "d = f64_real (x - f64_real (e * s))"
  define d' where "d' = f64_real (x - f64_real (t * s))"
  define k where "k = js_trunc (d / (2 * W))"
  define k' where "k' = js_trunc (d' / (2 * W))"
  define K where "K = 2 * W * of_int k"
  define K' where "K' = 2 * W * of_int k'"
  define p where "p = f64_real (d - K + W)"
  define p' where "p' = f64_real (d' - K' + W)"
  define B where "B = \<bar>e\<bar> * s"
  have time: "f64 (Num e + f64 (Num (2 * W) / Num s)) = Num t"
    using assms(4) by (simp add: t_def)
  have 1: "tree_px f64 (Num W) tr (Num e) = Num p"
    unfolding p_def K_def k_def by (rule tree_px_f64 [OF assms(2,1,3,5) d_def])
  have 2: "tree_px f64 (Num W) tr (f64 (Num e + f64 (Num (2 * W) / Num s))) = Num p'"
    unfolding time p'_def K'_def k'_def by (rule tree_px_f64 [OF assms(2,1,3,5) d'_def])
  from assms(1) have w: "2 * W \<noteq> 0"
    by simp
  have r: "\<bar>d - K\<bar> < 2 * \<bar>W\<bar>"
    using js_rem_bound [OF w, of d] by (simp add: K_def k_def)
  have r': "\<bar>d' - K'\<bar> < 2 * \<bar>W\<bar>"
    using js_rem_bound [OF w, of d'] by (simp add: K'_def k'_def)
  have hp: "\<bar>p - (d - K + W)\<bar> * 9007199254740992 \<le> \<bar>d - K + W\<bar>"
    unfolding p_def by (rule f64_real_error)
  have hp': "\<bar>p' - (d' - K' + W)\<bar> * 9007199254740992 \<le> \<bar>d' - K' + W\<bar>"
    unfolding p'_def by (rule f64_real_error)
  have eta: "\<bar>d' - d + 2 * W\<bar> * 9007199254740992 \<le> 2 * \<bar>x\<bar> + 10 * B + 30 * \<bar>W\<bar>"
    unfolding d'_def d_def t_def B_def by (rule scroll_rounding [OF assms(4)])
  have B0: "0 \<le> B"
    using assms(4) by (simp add: B_def)
  have "\<bar>p - p' - (2 * W - K + K')\<bar> * 9007199254740992 \<le> 32 * (\<bar>x\<bar> + B + 2 * \<bar>W\<bar>)"
    using r r' hp hp' eta B0 by argo
  moreover have "2 * W - K + K' = 2 * W * of_int (1 - k + k')"
    by (simp add: K_def K'_def algebra_simps)
  ultimately have "\<bar>p - p' - 2 * W * of_int (1 - k + k')\<bar> \<le> (\<bar>x\<bar> + \<bar>e\<bar> * s + 2 * \<bar>W\<bar>) / 2 ^ 48"
    by (simp add: B_def)
  with 1 2 show ?thesis
    by blast
qed

lemma tree_px_f64_steps:
  assumes "js_index [8, 16, 32] (layer tr) = Num s" and "tree_x tr = Num x"
    and "f64 (Num t * Num s) = Num a" and "f64 (Num x - Num a) = Num d"
    and "f64 (Num W * 2) = Num m" and "js_rem (Num d) (Num m) = Num r"
    and "f64 (Num r + Num W) = Num p"
  shows "tree_px f64 (Num W) tr (Num t) = Num p"
  unfolding tree_px_def Let_def assms ..

text \<open>
  The first tree of the page at the binary64 number nearest to 200.3 seconds and one period
  later: in binary64 the two positions differ in the last places.
\<close>

lemma first_tree_px_200:
  "tree_px f64 (Num 1280) (generateTrees 24 (Num 1280) (Num 720) ! 0)
      (Num (3523714864696525 / 17592186044416)) = Num (36003709137715 / 2199023255552)"
  "tree_px f64 (Num 1280) (generateTrees 24 (Num 1280) (Num 720) ! 0)
      (f64 (Num (3523714864696525 / 17592186044416) + f64 (Num (2 * 1280) / Num 8)))
    = Num (9000927284429 / 549755813888)"
proof -
  let ?tr = "generateTrees 24 (Num 1280) (Num 720) ! 0"
  have s: "js_index [8, 16, 32] (layer ?tr) = Num 8"
    by (simp add: first_tree js_index_def jsnum_simps)
  have x: "tree_x ?tr = Num (1420915235 / 4194304)"
    by (simp add: first_tree)
  have m: "f64 (Num 1280 * 2) = Num 2560"
    by (simp add: jsnum_simps f64_eval)
  have a: "f64 (Num (3523714864696525 / 17592186044416) * Num 8) = Num (3523714864696525 / 2199023255552)"
    by (simp add: f64_eval)
  have d: "f64 (Num (1420915235 / 4194304) - Num (3523714864696525 / 2199023255552))
      = Num (- (2778746057968845 / 2199023255552))"
    by (simp add: f64_eval)
  have r: "js_rem (Num (- (2778746057968845 / 2199023255552))) (Num 2560)
      = Num (- (2778746057968845 / 2199023255552))"
    by (simp add: js_trunc_def)
  have p: "f64 (Num (- (2778746057968845 / 2199023255552)) + Num 1280) = Num (36003709137715 / 2199023255552)"
    by (simp add: f64_eval)
  show "tree_px f64 (Num 1280) ?tr (Num (3523714864696525 / 17592186044416))
      = Num (36003709137715 / 2199023255552)"
    by (rule tree_px_f64_steps [OF s x a d m r p])
  have t: "f64 (Num (3523714864696525 / 17592186044416) + f64 (Num (2 * 1280) / Num 8))
      = Num (2288303599727411 / 4398046511104)"
    by (simp add: f64_eval)
  have a': "f64 (Num (2288303599727411 / 4398046511104) * Num 8) = Num (2288303599727411 / 549755813888)"
    by (simp add: f64_eval)
  have d': "f64 (Num (1420915235 / 4194304) - Num (2288303599727411 / 549755813888))
      = Num (- (2102061398045491 / 549755813888))"
    by (simp add: f64_eval)
  have r': "js_rem (Num (- (2102061398045491 / 549755813888))) (Num 2560)
      = Num (- (694686514492211 / 549755813888))"
    by (simp add: js_trunc_def)
  have p': "f64 (Num (- (694686514492211 / 549755813888)) + Num 1280) = Num (9000927284429 / 549755813888)"
    by (simp add: f64_eval)
  show "tree_px f64 (Num 1280) ?tr
      (f64 (Num (3523714864696525 / 17592186044416) + f64 (Num (2 * 1280) / Num 8)))
    = Num (9000927284429 / 549755813888)"
    unfolding t by (rule tree_px_f64_steps [OF s x a' d' m r' p'])
qed

lemma first_tree_px_0:
  "tree_px f64 (Num 1280) (generateTrees 24 (Num 1280) (Num 720) ! 0) (Num 0)
    = Num (6789624355 / 4194304)"
  "tree_px f64 (Num 1280) (generateTrees 24 (Num 1280) (Num 720) ! 0)
      (f64 (Num 0 + f64 (Num (2 * 1280) / Num 8)))
    = Num (- (3947793885 / 4194304))"
proof -
  let ?tr = "generateTrees 24 (Num 1280) (Num 720) ! 0"
  have s: "js_index [8, 16, 32] (layer ?tr) = Num 8"
    by (simp add: first_tree js_index_def jsnum_simps)
  have x: "tree_x ?tr = Num (1420915235 / 4194304)"
    by (simp add: first_tree)
  have m: "f64 (Num 1280 * 2) = Num 2560"
    by (simp add: jsnum_simps f64_eval)
  have a: "f64 (Num 0 * Num 8) = Num 0"
    by (simp add: f64_eval)
  have d: "f64 (Num (1420915235 / 4194304) - Num 0) = Num (1420915235 / 4194304)"
    by (simp add: f64_eval)
  have r: "js_rem (Num (1420915235 / 4194304)) (Num 2560) = Num (1420915235 / 4194304)"
    by (simp add: js_trunc_def)
  have p: "f64 (Num (1420915235 / 4194304) + Num 1280) = Num (6789624355 / 4194304)"
    by (simp add: f64_eval)
  show "tree_px f64 (Num 1280) ?tr (Num 0) = Num (6789624355 / 4194304)"
    by (rule tree_px_f64_steps [OF s x a d m r p])
  have t: "f64 (Num 0 + f64 (Num (2 * 1280) / Num 8)) = Num 320"
    by (simp add: f64_eval)
  have a': "f64 (Num 320 * Num 8) = Num 2560"
    by (simp add: f64_eval)
  have d': "f64 (Num (1420915235 / 4194304) - Num 2560) = Num (- (9316503005 / 4194304))"
    by (simp add: f64_eval)
  have r': "js_rem (Num (- (9316503005 / 4194304))) (Num 2560) = Num (- (9316503005 / 4194304))"
    by (simp add: js_trunc_def)
  have p': "f64 (Num (- (9316503005 / 4194304)) + Num 1280) = Num (- (3947793885 / 4194304))"
    by (simp add: f64_eval)
  show "tree_px f64 (Num 1280) ?tr (f64 (Num 0 + f64 (Num (2 * 1280) / Num 8)))
    = Num (- (3947793885 / 4194304))"
    unfolding t by (rule tree_px_f64_steps [OF s x a' d' m r' p'])
qed

text \<open>
  C3, as the code has it. For a width \<open>W \<noteq> 0\<close>, a tree of a layer below 3 at \<open>x\<close> with layer
  speed \<open>s\<close>, and an elapsed time \<open>e\<close>. In exact arithmetic the position at \<open>e\<close> equals
  the position at \<open>e + 2 * W / s\<close> exactly when \<open>(x - e * s) / (2 * W)\<close> is not strictly
  between 0 and 1 (for \<open>W > 0\<close>: \<open>x - e * s \<le> 0\<close>, the tree has scrolled to the left of its
  origin, or \<open>2 * W \<le> x - e * s\<close>); in between, the remainder keeps the sign of its dividend
  and the position at \<open>e\<close> is the later one plus \<open>2 * W\<close>. In binary64, as \<open>drawForest\<close>
  computes (every operation rounded to 53 bits, overflow and underflow aside), with the
  later time computed in binary64 too and \<open>W\<close> a binary64 number, the two positions differ
  by a multiple of \<open>2 * W\<close> up to a rounding error of at most
  \<open>(|x| + |e| * s + 2 * |W|) / 2^48\<close>.
\<close>

theorem tree_px_period:
  assumes "W \<noteq> 0" and "layer tr < 3" and "tree_x tr = Num x" and "s = [8, 16, 32] ! layer tr"
  shows "(tree_px exact (Num W) tr (Num e) = tree_px exact (Num W) tr (Num (e + 2 * W / s))
          \<longleftrightarrow> \<not> (0 < (x - e * s) / (2 * W) \<and> (x - e * s) / (2 * W) < 1))
     \<and> (0 < (x - e * s) / (2 * W) \<and> (x - e * s) / (2 * W) < 1
          \<longrightarrow> tree_px exact (Num W) tr (Num e)
              = tree_px exact (Num W) tr (Num (e + 2 * W / s)) + Num (2 * W))
     \<and> (f64_real W = W
          \<longrightarrow> (\<exists>p p' j. tree_px f64 (Num W) tr (Num e) = Num p
                 \<and> tree_px f64 (Num W) tr (f64 (Num e + f64 (Num (2 * W) / Num s))) = Num p'
                 \<and> \<bar>p - p' - 2 * W * of_int j\<bar> \<le> (\<bar>x\<bar> + \<bar>e\<bar> * s + 2 * \<bar>W\<bar>) / 2 ^ 48))"
proof -
  from js_index_speed [OF assms(2)] assms(4)
  have sp: "js_index [8, 16, 32] (layer tr) = Num s" and s0: "0 < s"
    by simp_all
  from tree_px_exact_period [OF assms(1) sp s0 assms(3), of e]
    tree_px_f64_period [OF assms(1) _ sp s0 assms(3), of e]
  show ?thesis
    by blast
qed

text \<open>
  The theorem at the first tree of the page: at the binary64 number nearest to 200.3 seconds
  the positions are equal in exact arithmetic and about \<open>4.5 * 10^-13\<close> apart in binary64;
  at 0 seconds the earlier position is the later one plus 2560.
\<close>

theorem tree_px_period_witness:
  "(1280 :: real) \<noteq> 0
   \<and> layer (generateTrees 24 (Num 1280) (Num 720) ! 0) < 3
   \<and> tree_x (generateTrees 24 (Num 1280) (Num 720) ! 0) = Num (1420915235 / 4194304)
   \<and> f64_real 1280 = 1280
   \<and> tree_px exact (Num 1280) (generateTrees 24 (Num 1280) (Num 720) ! 0)
        (Num (3523714864696525 / 17592186044416))
      = tree_px exact (Num 1280) (generateTrees 24 (Num 1280) (Num 720) ! 0)
          (Num (3523714864696525 / 17592186044416 + 2 * 1280 / 8))
   \<and> tree_px exact (Num 1280) (generateTrees 24 (Num 1280) (Num 720) ! 0) (Num 0)
      = tree_px exact (Num 1280) (generateTrees 24 (Num 1280) (Num 720) ! 0) (Num (0 + 2 * 1280 / 8))
          + Num (2 * 1280)
   \<and> tree_px f64 (Num 1280) (generateTrees 24 (Num 1280) (Num 720) ! 0)
        (Num (3523714864696525 / 17592186044416)) = Num (36003709137715 / 2199023255552)
   \<and> tree_px f64 (Num 1280) (generateTrees 24 (Num 1280) (Num 720) ! 0)
        (f64 (Num (3523714864696525 / 17592186044416) + f64 (Num (2 * 1280) / Num 8)))
      = Num (9000927284429 / 549755813888)
   \<and> (\<exists>j. \<bar>36003709137715 / 2199023255552 - 9000927284429 / 549755813888 - 2 * 1280 * real_of_int j\<bar>
          \<le> (\<bar>1420915235 / 4194304\<bar> + \<bar>3523714864696525 / 17592186044416\<bar> * 8 + 2 * \<bar>1280\<bar>) / 2 ^ 48)"
proof -
  let ?tr = "generateTrees 24 (Num 1280) (Num 720) ! 0"
  have n: "(1280 :: real) \<noteq> 0"
    by simp
  have l: "layer ?tr < 3"
    by (simp add: first_tree)
  have x: "tree_x ?tr = Num (1420915235 / 4194304)"
    by (simp add: first_tree)
  have s: "(8 :: real) = [8, 16, 32] ! layer ?tr"
    by (simp add: first_tree)
  have w: "f64_real 1280 = 1280"
    by (simp add: f64_eval)
  note a = tree_px_period [OF n l x s, of "3523714864696525 / 17592186044416"]
  note b = tree_px_period [OF n l x s, of 0]
  have 1: "tree_px exact (Num 1280) ?tr (Num (3523714864696525 / 17592186044416))
      = tree_px exact (Num 1280) ?tr (Num (3523714864696525 / 17592186044416 + 2 * 1280 / 8))"
    using a by simp
  have 2: "tree_px exact (Num 1280) ?tr (Num 0)
      = tree_px exact (Num 1280) ?tr (Num (0 + 2 * 1280 / 8)) + Num (2 * 1280)"
    using b by simp
  from a w obtain p p' j where
    "tree_px f64 (Num 1280) ?tr (Num (3523714864696525 / 17592186044416)) = Num p"
    "tree_px f64 (Num 1280) ?tr
       (f64 (Num (3523714864696525 / 17592186044416) + f64 (Num (2 * 1280) / Num 8))) = Num p'"
    "\<bar>p - p' - 2 * 1280 * real_of_int j\<bar>
       \<le> (\<bar>1420915235 / 4194304\<bar> + \<bar>3523714864696525 / 17592186044416\<bar> * 8 + 2 * \<bar>1280\<bar>) / 2 ^ 48"
    by blast
  then have 3: "\<exists>j. \<bar>36003709137715 / 2199023255552 - 9000927284429 / 549755813888 - 2 * 1280 * real_of_int j\<bar>
          \<le> (\<bar>1420915235 / 4194304\<bar> + \<bar>3523714864696525 / 17592186044416\<bar> * 8 + 2 * \<bar>1280\<bar>) / 2 ^ 48"
    unfolding first_tree_px_200 jsnum.inject by blast
  from n l x w 1 2 3 first_tree_px_200 show ?thesis
    by blast
qed

text \<open>
  The claim C3 as stated fails at the first tree of the page (layer 0, speed 8), as
  \<open>drawForest\<close> computes in binary64. At elapsed time 0 the position is about 1618.77 and
  one period later about -941.23: the tree has not yet wrapped. At the binary64 number
  nearest to 200.3 seconds the two positions, 16.372591352462678 and 16.372591352463132,
  differ by rounding.
\<close>

theorem scroll_wrap_counterexample:
  "layer (generateTrees 24 (Num 1280) (Num 720) ! 0) = 0
   \<and> tree_x (generateTrees 24 (Num 1280) (Num 720) ! 0) = Num (1420915235 / 4194304)
   \<and> tree_px f64 (Num 1280) (generateTrees 24 (Num 1280) (Num 720) ! 0) (Num 0)
      = Num (6789624355 / 4194304)
   \<and> tree_px f64 (Num 1280) (generateTrees 24 (Num 1280) (Num 720) ! 0)
        (f64 (Num 0 + f64 (Num (2 * 1280) / Num 8)))
      = Num (- (3947793885 / 4194304))
   \<and> tree_px f64 (Num 1280) (generateTrees 24 (Num 1280) (Num 720) ! 0) (Num 0)
      \<noteq> tree_px f64 (Num 1280) (generateTrees 24 (Num 1280) (Num 720) ! 0)
          (f64 (Num 0 + f64 (Num (2 * 1280) / Num 8)))
   \<and> tree_px f64 (Num 1280) (generateTrees 24 (Num 1280) (Num 720) ! 0)
        (Num (3523714864696525 / 17592186044416))
      \<noteq> tree_px f64 (Num 1280) (generateTrees 24 (Num 1280) (Num 720) ! 0)
          (f64 (Num (3523714864696525 / 17592186044416) + f64 (Num (2 * 1280) / Num 8)))"
  unfolding first_tree_px_0 first_tree_px_200
  by (simp add: first_tree)

subsection \<open>The walk of the character\<close>




subsection \<open>The frame\<close>

lemmas ctx_ops = fillRect_def beginPath_def closePath_def moveTo_def lineTo_def
  quadraticCurveTo_def ellipse_def arc_def fill_def stroke_def

lemma set_fillStyle_fields:
  "fillStyle (set_fillStyle so c) = (case so of Some s \<Rightarrow> s | None \<Rightarrow> fillStyle c)"
  "strokeStyle (set_fillStyle so c) = strokeStyle c"
  "lineWidth (set_fillStyle so c) = lineWidth c"
  "lineCap (set_fillStyle so c) = lineCap c"
  "path (set_fillStyle so c) = path c"
  "drawn (set_fillStyle so c) = drawn c"
  by (cases so; simp)+

lemma fold_append_path:
  assumes "\<And>i c. f i c = c\<lparr>path := path c @ g i\<rparr>"
  shows "fold f xs c = c\<lparr>path := path c @ concat (map g xs)\<rparr>"
proof (induction xs arbitrary: c)
  case Nil
  show ?case by simp
next
  case (Cons i xs)
  have "fold f (i # xs) c = fold f xs (f i c)"
    by simp
  also have "\<dots> = (f i c)\<lparr>path := path (f i c) @ concat (map g xs)\<rparr>"
    by (rule Cons.IH)
  also have "\<dots> = c\<lparr>path := path c @ concat (map g (i # xs))\<rparr>"
    by (simp add: assms)
  finally show ?case .
qed

lemma drawBlob_point_eq:
  "drawBlob_point x y w h i c = c\<lparr>path := path c @ path (drawBlob_point x y w h i fresh_ctx)\<rparr>"
  by (simp add: drawBlob_point_def Let_def moveTo_def lineTo_def fresh_ctx_def)

lemma drawBlob_eq:
  "drawBlob x y w h c =
     c\<lparr>path := concat (map (\<lambda>i. path (drawBlob_point x y w h i fresh_ctx)) [0..<17]) @ [ClosePath],
       drawn := drawn c @ [Fill (fillStyle c)
          (concat (map (\<lambda>i. path (drawBlob_point x y w h i fresh_ctx)) [0..<17]) @ [ClosePath])]\<rparr>"
  unfolding drawBlob_def Let_def
  by (subst fold_append_path [where f = "drawBlob_point x y w h", OF drawBlob_point_eq])
     (simp add: beginPath_def closePath_def fill_def)

text \<open>
  A tree is painted alike in two contexts that paint alike: its two styles are set before
  use or, when a hue is NaN, left as they were; the canopy starts a new path.
\<close>

lemma same_paint_tree:
  assumes "same_paint c1 c2"
  shows "same_paint (drawForest_tree W t tr c1) (drawForest_tree W t tr c2)"
  using assms
  by (cases "hsl (hue tr) 25 (30 + nat_num (layer tr) * 5)";
      cases "hsl (hue tr) 35 (28 + nat_num (layer tr) * 8)")
     (simp_all add: same_paint_def drawForest_tree_def Let_def drawBlob_eq fillRect_def)

lemma same_paint_forest:
  assumes "same_paint c1 c2"
  shows "same_paint (drawForest W H trees t c1) (drawForest W H trees t c2)"
  using assms unfolding drawForest_def
  by (induction trees arbitrary: c1 c2) (simp_all add: same_paint_tree)

text \<open>
  The loop of the hills only appends to the path.
\<close>

lemma drawHills_line_eq:
  "\<forall>c. drawHills_line x W i yBase t c
       = c\<lparr>path := path c @ path (drawHills_line x W i yBase t fresh_ctx)\<rparr>"
proof -
  fix c0 :: ctx
  show ?thesis
  proof (induction x W i yBase t c0 rule: drawHills_line.induct)
    case (1 x W i yBase t c0)
    show ?case
    proof (cases "js_le (Num x) W")
      case False
      then show ?thesis
        by (simp add: drawHills_line.simps fresh_ctx_def)
    next
      case True
      define y where "y = yBase + 30 * Math_sin ((Num x + nat_num i * 200) * 0.004 + t * (0.05 + nat_num i * 0.02))"
      from "1.IH" [OF True y_def]
      have ih: "\<And>c. drawHills_line (x + 8) W i yBase t c
         = c\<lparr>path := path c @ path (drawHills_line (x + 8) W i yBase t fresh_ctx)\<rparr>"
        by blast
      have st: "\<And>c. drawHills_line x W i yBase t c = drawHills_line (x + 8) W i yBase t (lineTo (Num x) y c)"
        using True by (subst drawHills_line.simps) (simp add: y_def Let_def)
      show ?thesis
      proof
        fix c
        show "drawHills_line x W i yBase t c
            = c\<lparr>path := path c @ path (drawHills_line x W i yBase t fresh_ctx)\<rparr>"
          unfolding st
          by (subst ih, subst (2) ih) (simp add: lineTo_def fresh_ctx_def)
      qed
    qed
  qed
qed

lemma drawHills_line_append:
  "drawHills_line x W i yBase t c = c\<lparr>path := path c @ drawHills_line_path x W i yBase t\<rparr>"
  unfolding drawHills_line_path_def using drawHills_line_eq by blast

lemma same_paint_hills_layer:
  assumes "drawn c1 = drawn c2"
  shows "same_paint (drawHills_layer W H t i c1) (drawHills_layer W H t i c2)"
  using assms
  by (simp add: same_paint_def drawHills_layer_def Let_def drawHills_line_append ctx_ops jsnum_simps)

lemma same_paint_hills:
  assumes "drawn c1 = drawn c2"
  shows "same_paint (drawHills W H t c1) (drawHills W H t c2)"
proof -
  let ?L = "drawHills_layer W H t"
  have u: "[0..<3] = [0, 1, 2 :: nat]"
    by (simp add: upt_rec)
  have "same_paint (?L 0 c1) (?L 0 c2)"
    by (rule same_paint_hills_layer [OF assms])
  then have "drawn (?L 0 c1) = drawn (?L 0 c2)"
    by (simp add: same_paint_def)
  then have "same_paint (?L 1 (?L 0 c1)) (?L 1 (?L 0 c2))"
    by (rule same_paint_hills_layer)
  then have "drawn (?L 1 (?L 0 c1)) = drawn (?L 1 (?L 0 c2))"
    by (simp add: same_paint_def)
  then have "same_paint (?L 2 (?L 1 (?L 0 c1))) (?L 2 (?L 1 (?L 0 c2)))"
    by (rule same_paint_hills_layer)
  then show ?thesis
    unfolding drawHills_def Let_def u by simp
qed

text \<open>
  The character sets every field of the context it paints with, so after it two contexts
  that painted alike are equal; the grass, which strokes with the line cap the character
  left, then paints alike too.
\<close>

lemma drawCat_same:
  assumes "same_paint c1 c2"
  shows "drawCat t W H c1 = drawCat t W H c2"
proof -
  have u: "[0..<4] = [0, 1, 2, 3 :: nat]"
    by (simp add: upt_rec)
  show ?thesis
    using assms unfolding drawCat_def Let_def drawCat_leg_def drawCat_whisker_def u
    by (intro ctx.equality) (simp_all add: ctx_ops same_paint_def)
qed

text \<open>
  C1: for every elapsed time \<open>e\<close>, width \<open>W\<close>, height \<open>H\<close> and tree list \<open>T\<close>, the frame
  drawn on two blank surfaces makes the same sequence of painting calls, each with the same
  styles and path, and throws the same exception or none. The two contexts may be in any
  state (styles, line width, line cap, current path) beforehand: nothing a previous frame
  left behind reaches the output.
\<close>

theorem renderFrame_deterministic:
  "fst (renderFrame e W H T (c1\<lparr>drawn := []\<rparr>)) = fst (renderFrame e W H T (c2\<lparr>drawn := []\<rparr>))
   \<and> drawn (snd (renderFrame e W H T (c1\<lparr>drawn := []\<rparr>)))
       = drawn (snd (renderFrame e W H T (c2\<lparr>drawn := []\<rparr>)))"
proof (cases H)
  case NaN
  then show ?thesis
    by (simp add: renderFrame_def jsnum_simps)
next
  case (Num h)
  define sky where "sky = LinearGradient 0 0 0 h [(0, ''#a8d0ff''), (1, ''#e8f6ff'')]"
  define grd where "grd = LinearGradient 0 (h * 0.7) 0 h [(0, ''#5aa35a''), (1, ''#2e6b2e'')]"
  define before where "before c = drawForest W H T e (drawHills W H e (fillRect 0 0 W H (c\<lparr>fillStyle := sky\<rparr>)))" for c
  define after where "after c = drawGrass W H e (drawCat e W H (fillRect 0 (H * 0.72) W (H * 0.28) (c\<lparr>fillStyle := grd\<rparr>)))" for c
  have r: "renderFrame e W H T c = (None, after (before c))" for c
    by (simp add: renderFrame_def Num jsnum_simps Let_def sky_def grd_def before_def after_def)
  have "drawn (fillRect 0 0 W H (c1\<lparr>drawn := [], fillStyle := sky\<rparr>))
      = drawn (fillRect 0 0 W H (c2\<lparr>drawn := [], fillStyle := sky\<rparr>))"
    by (simp add: fillRect_def)
  then have "same_paint (before (c1\<lparr>drawn := []\<rparr>)) (before (c2\<lparr>drawn := []\<rparr>))"
    unfolding before_def by (intro same_paint_forest same_paint_hills) simp
  then have "same_paint (fillRect 0 (H * 0.72) W (H * 0.28) (before (c1\<lparr>drawn := []\<rparr>)\<lparr>fillStyle := grd\<rparr>))
      (fillRect 0 (H * 0.72) W (H * 0.28) (before (c2\<lparr>drawn := []\<rparr>)\<lparr>fillStyle := grd\<rparr>))"
    by (simp add: same_paint_def fillRect_def)
  then have "after (before (c1\<lparr>drawn := []\<rparr>)) = after (before (c2\<lparr>drawn := []\<rparr>))"
    unfolding after_def by (simp only: drawCat_same)
  then show ?thesis
    by (simp add: r)
qed

subsection \<open>The gait of the character\<close>

lemma cat_step_period: "cat_step (Num (e + pi / 4)) = cat_step (Num e)"
proof -
  have "(e + pi / 4) * 8 = e * 8 + 2 * pi"
    by (simp add: algebra_simps)
  then have "sin ((e + pi / 4) * 8) = sin (e * 8)"
    by (simp only: sin_periodic)
  then show ?thesis
    by (simp add: cat_step_def jsnum_simps)
qed

lemma cat_bob_period: "cat_bob (Num (e + pi / 3)) = cat_bob (Num e)"
proof -
  have "(e + pi / 3) * 6 = e * 6 + 2 * pi"
    by (simp add: algebra_simps)
  then have "sin ((e + pi / 3) * 6) = sin (e * 6)"
    by (simp only: sin_periodic)
  then show ?thesis
    by (simp add: cat_bob_def jsnum_simps)
qed

text \<open>
  Bounds of \<open>pi\<close> from Machin's formula and the alternating series of the arc tangent,
  and with them the two oscillations at the binary64 number nearest to \<open>pi / 4\<close>.
\<close>

lemma arctan_bounds:
  fixes x :: real
  assumes "0 < x" and "x \<le> 1"
  shows "(\<Sum>i<2 * n. (- 1) ^ i * (1 / real (i * 2 + 1) * x ^ (i * 2 + 1))) \<le> arctan x"
    and "arctan x \<le> (\<Sum>i<2 * n + 1. (- 1) ^ i * (1 / real (i * 2 + 1) * x ^ (i * 2 + 1)))"
proof -
  from assms have a: "\<bar>x\<bar> \<le> 1"
    by simp
  from assms have p: "0 < 1 / real (0 * 2 + 1) * x ^ (0 * 2 + 1)"
    by simp
  from summable_Leibniz(2) [OF zeroseq_arctan_series [OF a] monoseq_arctan_series [OF a]] p
  have "arctan x \<in> {(\<Sum>i<2 * n. (- 1) ^ i * (1 / real (i * 2 + 1) * x ^ (i * 2 + 1)))
     .. (\<Sum>i<2 * n + 1. (- 1) ^ i * (1 / real (i * 2 + 1) * x ^ (i * 2 + 1)))}"
    unfolding arctan_series [OF a] by blast
  then show "(\<Sum>i<2 * n. (- 1) ^ i * (1 / real (i * 2 + 1) * x ^ (i * 2 + 1))) \<le> arctan x"
    and "arctan x \<le> (\<Sum>i<2 * n + 1. (- 1) ^ i * (1 / real (i * 2 + 1) * x ^ (i * 2 + 1)))"
    by simp_all
qed

lemma pi_bounds: "314159265358979323 / 100000000000000000 < pi" "pi < 314159265358979324 / 100000000000000000"
proof -
  have l5: "(\<Sum>i<2 * 6. (- 1) ^ i * (1 / real (i * 2 + 1) * (1 / 5) ^ (i * 2 + 1))) \<le> arctan (1 / 5)"
    by (rule arctan_bounds) simp_all
  have u5: "arctan (1 / 5) \<le> (\<Sum>i<2 * 6 + 1. (- 1) ^ i * (1 / real (i * 2 + 1) * (1 / 5) ^ (i * 2 + 1)))"
    by (rule arctan_bounds) simp_all
  have l239: "(\<Sum>i<2 * 2. (- 1) ^ i * (1 / real (i * 2 + 1) * (1 / 239) ^ (i * 2 + 1))) \<le> arctan (1 / 239)"
    by (rule arctan_bounds) simp_all
  have u239: "arctan (1 / 239) \<le> (\<Sum>i<2 * 2 + 1. (- 1) ^ i * (1 / real (i * 2 + 1) * (1 / 239) ^ (i * 2 + 1)))"
    by (rule arctan_bounds) simp_all
  have m: "pi = 16 * arctan (1 / 5) - 4 * arctan (1 / 239)"
    using machin by simp
  have e5: "(157490522761940959144868 / 797842276096343994140625 :: real) \<le> arctan (1 / 5)"
    using l5 by (simp add: lessThan_nat_numeral lessThan_Suc power_divide)
  have f5: "arctan (1 / 5) \<le> (98431576726213099532470361 / 498651422560214996337890625 :: real)"
    using u5 by (simp add: lessThan_nat_numeral lessThan_Suc power_divide)
  have e239: "(19569249503065996 / 4677077924340368295 :: real) \<le> arctan (1 / 239)"
    using l239 by (simp add: lessThan_nat_numeral lessThan_Suc power_divide)
  have f239: "arctan (1 / 239) \<le> (3353445302593898272583 / 801478104348738532136085 :: real)"
    using u239 by (simp add: lessThan_nat_numeral lessThan_Suc power_divide)
  show "314159265358979323 / 100000000000000000 < pi"
    unfolding m using e5 f239 by linarith
  show "pi < 314159265358979324 / 100000000000000000"
    unfolding m using f5 e239 by linarith
qed

lemma sin_near_period:
  fixes t :: real
  assumes "t = 884279719003555 / 1125899906842624"
  shows "- (1 / 10 ^ 15) < sin (t * 8)" and "sin (t * 8) < 0" and "sin (t * 6) * 4 < - (39 / 10)"
proof -
  define y where "y = 2 * pi - t * 8"
  from pi_bounds have y: "0 < y" "y < 1 / 10 ^ 15"
    unfolding y_def assms by simp_all
  have "t * 8 = - y + 2 * pi"
    by (simp add: y_def)
  then have s: "sin (t * 8) = - sin y"
    by (simp only: sin_periodic sin_minus)
  from y pi_ge_two have "0 < sin y"
    by (intro sin_gt_zero) simp_all
  moreover from y have "sin y \<le> y"
    by (intro sin_x_le_x) simp
  ultimately show "- (1 / 10 ^ 15) < sin (t * 8)" and "sin (t * 8) < 0"
    using y unfolding s by simp_all
  have "t * 6 = 3 / 2 * pi - 2 * (3 / 8 * y)"
    unfolding y_def by (simp add: algebra_simps)
  then have "sin (t * 6) = - cos (2 * (3 / 8 * y))"
    by (simp only: sin_diff sin_3over2_pi cos_3over2_pi)
  also have "\<dots> = 2 * (sin (3 / 8 * y))\<^sup>2 - 1"
    by (simp only: cos_double_sin)
  finally have b: "sin (t * 6) = 2 * (sin (3 / 8 * y))\<^sup>2 - 1" .
  have "\<bar>sin (3 / 8 * y)\<bar> \<le> \<bar>3 / 8 * y\<bar>"
    by (rule abs_sin_x_le_abs_x)
  with y have "\<bar>sin (3 / 8 * y)\<bar> \<le> 1 / 10"
    by simp
  then have "(sin (3 / 8 * y))\<^sup>2 \<le> (1 / 10)\<^sup>2"
    by (simp only: abs_le_square_iff [symmetric])
  then show "sin (t * 6) * 4 < - (39 / 10)"
    unfolding b by (simp add: power2_eq_square)
qed

text \<open>
  C7, as the code has it. Two sinusoids of the elapsed time alone drive the pose, whatever
  the width and the position \<open>x\<close>: \<open>sin(8 t)\<close>, of period \<open>pi / 4\<close>, swings the legs (with
  opposite signs for the legs of even and of odd index) and curls the tail; a second one of
  another frequency, \<open>4 sin(6 t)\<close>, of period \<open>pi / 3\<close>, bobs the body. In the painting calls
  of \<open>drawCat\<close>, call 1 is the tail, call 2 the body and calls 3 to 6 the legs.
\<close>

theorem gait_pose:
  assumes "cat_x f64 (Num e) (Num w) = Num x"
  shows "cat_step (Num e) = Num (sin (e * 8))
     \<and> cat_bob (Num e) = Num (sin (e * 6) * 4)
     \<and> cat_step (Num (e + pi / 4)) = cat_step (Num e)
     \<and> cat_bob (Num (e + pi / 3)) = cat_bob (Num e)
     \<and> (let s = sin (e * 8);
             groundY = h * 0.78;
             bodyY = groundY - 80 + sin (e * 6) * 4;
             ops = drawn (drawCat (Num e) (Num w) (Num h) (c\<lparr>drawn := []\<rparr>))
         in ops ! 1 = Stroke (Color ''#333'') 14 Round
                [MoveTo (x + 40) (bodyY - 10),
                 QuadraticCurveTo (x - 20) (bodyY - 50 - s * 8) (x + 10) (bodyY - 70 - s * 4)]
          \<and> ops ! 2 = Fill (Color ''#444'') [Ellipse (x + 110) bodyY 90 48 0 0 (pi * 2)]
          \<and> ops ! 3 = Stroke (Color ''#3a3a3a'') 10 Round
                [MoveTo (x + 70) (bodyY + 20), LineTo (x + 70 + s * 12) (groundY - 8)]
          \<and> ops ! 4 = Stroke (Color ''#3a3a3a'') 10 Round
                [MoveTo (x + 70 + 22) (bodyY + 20), LineTo (x + 70 + 22 + - s * 12) (groundY - 8)]
          \<and> ops ! 5 = Stroke (Color ''#3a3a3a'') 10 Round
                [MoveTo (x + 70 + 44) (bodyY + 20), LineTo (x + 70 + 44 + s * 12) (groundY - 8)]
          \<and> ops ! 6 = Stroke (Color ''#3a3a3a'') 10 Round
                [MoveTo (x + 70 + 66) (bodyY + 20), LineTo (x + 70 + 66 + - s * 12) (groundY - 8)])"
proof -
  have u: "[0..<4] = [0, 1, 2, 3 :: nat]"
    by (simp add: upt_rec)
  have p: "(let s = sin (e * 8);
             groundY = h * 0.78;
             bodyY = groundY - 80 + sin (e * 6) * 4;
             ops = drawn (drawCat (Num e) (Num w) (Num h) (c\<lparr>drawn := []\<rparr>))
         in ops ! 1 = Stroke (Color ''#333'') 14 Round
                [MoveTo (x + 40) (bodyY - 10),
                 QuadraticCurveTo (x - 20) (bodyY - 50 - s * 8) (x + 10) (bodyY - 70 - s * 4)]
          \<and> ops ! 2 = Fill (Color ''#444'') [Ellipse (x + 110) bodyY 90 48 0 0 (pi * 2)]
          \<and> ops ! 3 = Stroke (Color ''#3a3a3a'') 10 Round
                [MoveTo (x + 70) (bodyY + 20), LineTo (x + 70 + s * 12) (groundY - 8)]
          \<and> ops ! 4 = Stroke (Color ''#3a3a3a'') 10 Round
                [MoveTo (x + 70 + 22) (bodyY + 20), LineTo (x + 70 + 22 + - s * 12) (groundY - 8)]
          \<and> ops ! 5 = Stroke (Color ''#3a3a3a'') 10 Round
                [MoveTo (x + 70 + 44) (bodyY + 20), LineTo (x + 70 + 44 + s * 12) (groundY - 8)]
          \<and> ops ! 6 = Stroke (Color ''#3a3a3a'') 10 Round
                [MoveTo (x + 70 + 66) (bodyY + 20), LineTo (x + 70 + 66 + - s * 12) (groundY - 8)])"
    unfolding drawCat_def Let_def drawCat_leg_def drawCat_whisker_def u assms cat_step_def cat_bob_def
    by (simp add: ctx_ops jsnum_simps)
  have "cat_step (Num e) = Num (sin (e * 8))" "cat_bob (Num e) = Num (sin (e * 6) * 4)"
    by (simp_all add: cat_step_def cat_bob_def jsnum_simps)
  with p cat_step_period cat_bob_period show ?thesis
    by blast
qed

text \<open>
  The theorem at an eighth of a second on the page (1280 by 720), in mid-stride: the legs
  swing by \<open>12 sin 1\<close>, about 10.1, and the body is moved by \<open>4 sin (3/4)\<close>, about 2.7;
  and at the width 800 and the binary64 number nearest to \<open>55 / 7\<close> seconds, where the
  product with the speed rounds to the loop width 1100 and the character is back at \<open>-150\<close>.
\<close>

theorem gait_pose_witness:
  "cat_x f64 (Num (1 / 8)) (Num 1280) = Num (- (265 / 2))
   \<and> cat_step (Num (1 / 8)) = Num (sin 1) \<and> 0 < sin (1 :: real)
   \<and> cat_bob (Num (1 / 8)) = Num (sin (3 / 4) * 4) \<and> 0 < sin (3 / 4 :: real)
   \<and> drawn (drawCat (Num (1 / 8)) (Num 1280) (Num 720) (fresh_ctx\<lparr>drawn := []\<rparr>)) ! 2
        = Fill (Color ''#444'') [Ellipse (- (45 / 2)) (2408 / 5 + sin (3 / 4) * 4) 90 48 0 0 (pi * 2)]
   \<and> drawn (drawCat (Num (1 / 8)) (Num 1280) (Num 720) (fresh_ctx\<lparr>drawn := []\<rparr>)) ! 3
        = Stroke (Color ''#3a3a3a'') 10 Round
            [MoveTo (- (125 / 2)) (2508 / 5 + sin (3 / 4) * 4), LineTo (sin 1 * 12 - 125 / 2) (2768 / 5)]
   \<and> drawn (drawCat (Num (1 / 8)) (Num 1280) (Num 720) (fresh_ctx\<lparr>drawn := []\<rparr>)) ! 4
        = Stroke (Color ''#3a3a3a'') 10 Round
            [MoveTo (- (81 / 2)) (2508 / 5 + sin (3 / 4) * 4), LineTo (- (81 / 2) - sin 1 * 12) (2768 / 5)]
   \<and> cat_x f64 (Num (8846356410906331 / 1125899906842624)) (Num 800) = Num (- 150)
   \<and> drawn (drawCat (Num (8846356410906331 / 1125899906842624)) (Num 800) (Num 600)
          (fresh_ctx\<lparr>drawn := []\<rparr>)) ! 2
        = Fill (Color ''#444'')
            [Ellipse (- 40) (388 + sin (26539069232718993 / 562949953421312) * 4) 90 48 0 0 (pi * 2)]"
proof -
  have a: "f64 (Num (1 / 8) * 140) = Num (35 / 2)"
    by (simp add: jsnum_simps f64_eval)
  have l: "f64 (Num 1280 + 300) = Num 1580"
    by (simp add: jsnum_simps f64_eval)
  have r: "js_rem (Num (35 / 2)) (Num 1580) = Num (35 / 2)"
    by (simp add: js_trunc_def)
  have p: "f64 (Num (35 / 2) - 150) = Num (- (265 / 2))"
    by (simp add: jsnum_simps f64_eval)
  have x: "cat_x f64 (Num (1 / 8)) (Num 1280) = Num (- (265 / 2))"
    unfolding cat_x_def Let_def a l r p ..
  have a': "f64 (Num (8846356410906331 / 1125899906842624) * 140) = Num 1100"
    by (simp add: jsnum_simps f64_eval)
  have l': "f64 (Num 800 + 300) = Num 1100"
    by (simp add: jsnum_simps f64_eval)
  have r': "js_rem (Num 1100) (Num 1100) = Num 0"
    by (simp add: js_trunc_def)
  have p': "f64 (Num 0 - 150) = Num (- 150)"
    by (simp add: jsnum_simps f64_eval)
  have x': "cat_x f64 (Num (8846356410906331 / 1125899906842624)) (Num 800) = Num (- 150)"
    unfolding cat_x_def Let_def a' l' r' p' ..
  have s: "0 < sin (1 :: real)" "0 < sin (3 / 4 :: real)"
    by (rule sin_gt_zero_02; simp)+
  from gait_pose [OF x, of 720 fresh_ctx] gait_pose [OF x', of 600 fresh_ctx] x x' s show ?thesis
    by (simp add: Let_def)
qed

text \<open>
  The claim C7 as stated fails. At the elapsed times 0 and 0.7853981633974483, the binary64
  number nearest to \<open>pi / 4\<close>, the oscillation of the legs and the tail has the same value
  up to \<open>10^-15\<close>: one period of the gait lies between them. The bob of the body is 0 at
  the one and below \<open>-3.9\<close>, near its lowest, at the other: it does not follow the gait.
\<close>

theorem gait_counterexample:
  "cat_step (Num 0) = Num 0
   \<and> cat_step (Num (884279719003555 / 1125899906842624))
       = Num (sin (884279719003555 / 1125899906842624 * 8))
   \<and> - (1 / 10 ^ 15) < sin (884279719003555 / 1125899906842624 * 8 :: real)
   \<and> sin (884279719003555 / 1125899906842624 * 8 :: real) < 0
   \<and> cat_bob (Num 0) = Num 0
   \<and> cat_bob (Num (884279719003555 / 1125899906842624))
       = Num (sin (884279719003555 / 1125899906842624 * 6) * 4)
   \<and> sin (884279719003555 / 1125899906842624 * 6 :: real) * 4 < - (39 / 10)"
proof -
  have 1: "cat_step (Num 0) = Num 0" "cat_bob (Num 0) = Num 0"
    by (simp_all add: cat_step_def cat_bob_def jsnum_simps)
  have 2: "cat_step (Num (884279719003555 / 1125899906842624))
       = Num (sin (884279719003555 / 1125899906842624 * 8))"
    unfolding cat_step_def numeral_jsnum times_jsnum.simps Math_sin.simps ..
  have 3: "cat_bob (Num (884279719003555 / 1125899906842624))
       = Num (sin (884279719003555 / 1125899906842624 * 6) * 4)"
    unfolding cat_bob_def numeral_jsnum times_jsnum.simps Math_sin.simps ..
  from 1 2 3 sin_near_period [OF refl] show ?thesis
    by blast
qed

subsection \<open>The capture controller\<close>

lemma pick_mimeType_none:
  "\<not> has_MediaRecorder env \<or> (\<forall>mt \<in> set mts. \<not> isTypeSupported env mt) \<Longrightarrow> pick_mimeType env mts = ''''"
  by (induction mts) auto

text \<open>
  C9: when the canvas is mounted and it has no \<open>captureStream\<close>, or there is no
  \<open>MediaRecorder\<close>, or none of the preferred types is supported, \<open>handleRecord\<close> sets the
  status to error and a non-empty message, starts no recorder, and leaves \<open>animRef\<close>
  (with it the running flag of the render driver) unchanged.
\<close>

theorem capture_unsupported_error:
  assumes "canvas_mounted env"
    and "\<not> has_captureStream env \<or> \<not> has_MediaRecorder env
         \<or> (\<forall>mt \<in> set mimeTypes. \<not> isTypeSupported env mt)"
  shows "recState (fst (handleRecord_begin env s)) = Error
    \<and> (\<exists>m. errorMsg (fst (handleRecord_begin env s)) = Some m \<and> m \<noteq> '''')
    \<and> snd (handleRecord_begin env s) = None
    \<and> animRef (fst (handleRecord_begin env s)) = animRef s"
proof (cases "has_captureStream env")
  case False
  with assms(1) show ?thesis
    by (simp add: handleRecord_begin_def Let_def)
next
  case True
  with assms(2) have "pick_mimeType env mimeTypes = ''''"
    by (intro pick_mimeType_none) blast
  with True assms(1) show ?thesis
    by (simp add: handleRecord_begin_def Let_def)
qed

theorem capture_unsupported_error_witness:
  "canvas_mounted browser_without_webm
   \<and> has_captureStream browser_without_webm
   \<and> \<not> isTypeSupported browser_without_webm ''video/webm;codecs=vp9,opus''
   \<and> \<not> isTypeSupported browser_without_webm ''video/webm;codecs=vp8,opus''
   \<and> \<not> isTypeSupported browser_without_webm ''video/webm''
   \<and> recState (fst (handleRecord_begin browser_without_webm initial_page)) = Error
   \<and> errorMsg (fst (handleRecord_begin browser_without_webm initial_page))
       = Some ''MediaRecorder with WebM is not supported by this browser.''
   \<and> running (animRef (fst (handleRecord_begin browser_without_webm initial_page)))
       = running (animRef initial_page)"
proof -
  have m: "canvas_mounted browser_without_webm"
    by (simp add: browser_without_webm_def)
  have f: "\<forall>mt \<in> set mimeTypes. \<not> isTypeSupported browser_without_webm mt"
    by (simp add: browser_without_webm_def)
  from f have d: "\<not> has_captureStream browser_without_webm \<or> \<not> has_MediaRecorder browser_without_webm
         \<or> (\<forall>mt \<in> set mimeTypes. \<not> isTypeSupported browser_without_webm mt)"
    by blast
  have e: "errorMsg (fst (handleRecord_begin browser_without_webm initial_page))
       = Some ''MediaRecorder with WebM is not supported by this browser.''"
    by (simp add: handleRecord_begin_def browser_without_webm_def mimeTypes_def Let_def)
  from capture_unsupported_error [OF m d, of initial_page] e show ?thesis
    by (simp add: browser_without_webm_def)
qed

subsection \<open>The status\<close>

lemma handleRecord_begin_cases:
  assumes "handleRecord_begin env s = (s', r)"
  shows "(recState s' = recState s \<and> r = None)
       \<or> (recState s' = Error \<and> r = None)
       \<or> (recState s' = Recording \<and> (\<exists>mt ms. r = Some (mt, ms)))"
  using assms by (auto simp add: handleRecord_begin_def Let_def split: if_splits)

lemma handleRecord_begin_webm:
  "handleRecord_begin browser_with_webm s
     = (s\<lparr>errorMsg := None, videoUrl := None, recState := Recording\<rparr>,
        Some (''video/webm'', durationSec s * 1000))"
  by (simp add: handleRecord_begin_def browser_with_webm_def mimeTypes_def Let_def)

lemma step_from_idle:
  assumes "page_step st ev st'" and "recState (fst st) = Idle" and "snd st = []"
  shows "(recState (fst st') = Idle \<and> snd st' = []) \<or> recState (fst st') = Recording
       \<or> recState (fst st') = Error"
  using assms
proof (induction rule: page_step.induct)
  case (click s env s' r ps)
  from handleRecord_begin_cases [OF click.hyps(3)] click.prems show ?case
    by auto
next
  case (change s ps r)
  then show ?case
    by (simp add: duration_onChange_def)
qed simp_all

lemma step_to_idle:
  assumes "page_step st ev st'" and "recState (fst st') = Idle"
  shows "recState (fst st) = Idle \<and> (snd st = [] \<longrightarrow> snd st' = [])"
  using assms
proof (induction rule: page_step.induct)
  case (click s env s' r ps)
  from handleRecord_begin_cases [OF click.hyps(3)] click.prems show ?case
    by auto
next
  case (change s ps r)
  then show ?case
    by (simp add: duration_onChange_def)
qed (simp_all add: handleRecord_after_wait_def handleRecord_after_stop_def recorder_onerror_def Let_def)

lemma run_idle_no_pending:
  assumes "run evs st" and "recState (fst st) = Idle"
  shows "snd st = []"
  using assms
proof (induction rule: run.induct)
  case init
  show ?case by simp
next
  case (step evs st ev st')
  from step_to_idle [OF step.hyps(2) step.prems] step.IH show ?case
    by simp
qed

lemma step_quiet:
  assumes "page_step st ev st'" and "\<not> is_RecorderError ev" and "quiet_inv st"
  shows "quiet_inv st' \<and> chain (recState (fst st)) (recState (fst st'))"
  using assms
proof (induction rule: page_step.induct)
  case (click s env s' r ps)
  from handleRecord_begin_cases [OF click.hyps(3)] click.hyps(1,2) click.prems show ?case
    by (cases "recState s") (auto simp add: quiet_inv_def)
next
  case (timer i ps ms s)
  then show ?case
    by (auto simp add: quiet_inv_def handleRecord_after_wait_def)
next
  case (stopped i ps s url)
  then show ?case
    by (auto simp add: quiet_inv_def handleRecord_after_stop_def Let_def)
next
  case (onerror i ps s m)
  then show ?case by simp
next
  case (change s ps r)
  then show ?case
    by (cases "recState s") (auto simp add: quiet_inv_def duration_onChange_def)
qed

lemma run_quiet:
  assumes "run evs st" and "\<forall>e \<in> set evs. \<not> is_RecorderError e"
  shows "quiet_inv st"
  using assms
proof (induction rule: run.induct)
  case init
  show ?case by (simp add: quiet_inv_def initial_page_def)
next
  case (step evs st ev st')
  then show ?case
    using step_quiet [of st ev st'] by simp
qed

lemma step_recorder_error:
  assumes "page_step st ev st'" and "is_RecorderError ev"
  shows "recState (fst st') = Error \<and> (\<exists>m. errorMsg (fst st') = Some m \<and> m \<noteq> '''') \<and> snd st \<noteq> []"
  using assms
proof (induction rule: page_step.induct)
  case (onerror i ps s m)
  then show ?case
    by (cases m) (auto simp add: recorder_onerror_def Let_def)
qed simp_all

lemma step_quiet_event:
  assumes "page_step st ev st'" and "quiet_inv st"
  shows "(is_RecorderError ev \<longrightarrow> recState (fst st) = Recording \<or> recState (fst st) = Processing)
     \<and> (\<forall>i. ev = Timer i \<longrightarrow> recState (fst st) = Recording \<and> recState (fst st') = Processing)
     \<and> (\<forall>i url. ev = Stopped i url \<longrightarrow> recState (fst st) = Processing \<and> recState (fst st') = Done)"
  using assms
proof (induction rule: page_step.induct)
  case (timer i ps ms s)
  then show ?case
    by (auto simp add: quiet_inv_def handleRecord_after_wait_def)
next
  case (stopped i ps s url)
  then show ?case
    by (auto simp add: quiet_inv_def handleRecord_after_stop_def Let_def)
next
  case (onerror i ps s m)
  then show ?case
    by (auto simp add: quiet_inv_def)
qed simp_all

lemma step_chain:
  assumes "page_step st ev st'" and "\<not> is_resume ev" and "\<not> is_RecorderError ev"
  shows "chain (recState (fst st)) (recState (fst st'))"
  using assms
proof (induction rule: page_step.induct)
  case (click s env s' r ps)
  from handleRecord_begin_cases [OF click.hyps(3)] click.hyps(1,2) show ?case
    by (cases "recState s") auto
next
  case (change s ps r)
  then show ?case
    by (cases "recState s") (simp_all add: duration_onChange_def)
qed simp_all

lemma click_restarts:
  assumes "recState (fst st) = Done \<or> recState (fst st) = Error"
  shows "\<exists>s' ps'. page_step st (Click browser_with_webm) (s', ps') \<and> recState s' = Recording"
proof -
  from assms have "recState (fst st) \<noteq> Recording" "recState (fst st) \<noteq> Processing"
    by auto
  from page_step.click [OF this handleRecord_begin_webm, of "snd st"] show ?thesis
    by auto
qed

text \<open>
  C6, as the code has it. For every state \<open>st\<close> the page reaches and every step from it:
  from idle the status stays idle or becomes recording or error (the claim's chain has one
  more link, from idle directly to error); no step returns it to idle; an error event of a
  recorder sets the status to error and a non-empty message, at any point; a click and a
  change of the duration keep the status or move it along the chain idle \<open>\<rightarrow>\<close> recording
  \<open>\<rightarrow>\<close> processing \<open>\<rightarrow>\<close> done, idle or done \<open>\<rightarrow>\<close> error, done or error \<open>\<rightarrow>\<close> recording. The
  state is in step when the suspended call of \<open>handleRecord\<close> matches the status: none in
  idle, done and error, one waiting for the timer in recording, one waiting for the stop
  event in processing. It is as long as no recorder error event has happened. From a state
  in step, every step other than a recorder error leads to a state in step, along the
  chain: the timer moves the status from recording to processing, the stop event from
  processing to done; and a recorder error comes in recording or in processing. In done
  and in error a click on Record, in a browser that can record, leads to recording.
  Nothing is said of the timer and the stop event of a call out of step with the status,
  still suspended after the error event of its recorder.
\<close>

theorem status_transitions:
  assumes "run evs st" and "page_step st ev st'"
  shows "(recState (fst st) = Idle \<longrightarrow>
            recState (fst st') = Idle \<or> recState (fst st') = Recording \<or> recState (fst st') = Error)
       \<and> (recState (fst st') = Idle \<longrightarrow> recState (fst st) = Idle)
       \<and> (is_RecorderError ev \<longrightarrow>
            recState (fst st') = Error \<and> (\<exists>m. errorMsg (fst st') = Some m \<and> m \<noteq> ''''))
       \<and> (\<not> is_resume ev \<and> \<not> is_RecorderError ev \<longrightarrow>
            chain (recState (fst st)) (recState (fst st')))
       \<and> ((\<forall>e \<in> set evs. \<not> is_RecorderError e) \<longrightarrow> quiet_inv st)
       \<and> (quiet_inv st \<and> \<not> is_RecorderError ev \<longrightarrow>
            quiet_inv st' \<and> chain (recState (fst st)) (recState (fst st')))
       \<and> (quiet_inv st \<and> is_RecorderError ev \<longrightarrow>
            recState (fst st) = Recording \<or> recState (fst st) = Processing)
       \<and> (quiet_inv st \<longrightarrow>
            (\<forall>i. ev = Timer i \<longrightarrow> recState (fst st) = Recording \<and> recState (fst st') = Processing)
          \<and> (\<forall>i url. ev = Stopped i url \<longrightarrow> recState (fst st) = Processing \<and> recState (fst st') = Done))
       \<and> (recState (fst st) = Done \<or> recState (fst st) = Error \<longrightarrow>
            (\<exists>s' ps'. page_step st (Click browser_with_webm) (s', ps') \<and> recState s' = Recording))"
proof (intro conjI impI)
  assume "recState (fst st) = Idle"
  with run_idle_no_pending [OF assms(1)] step_from_idle [OF assms(2)]
  show "recState (fst st') = Idle \<or> recState (fst st') = Recording \<or> recState (fst st') = Error"
    by blast
next
  assume "recState (fst st') = Idle"
  with step_to_idle [OF assms(2)] show "recState (fst st) = Idle"
    by simp
next
  assume "is_RecorderError ev"
  from step_recorder_error [OF assms(2) this]
  show "recState (fst st') = Error" and "\<exists>m. errorMsg (fst st') = Some m \<and> m \<noteq> ''''"
    by simp_all
next
  assume "\<not> is_resume ev \<and> \<not> is_RecorderError ev"
  with step_chain [OF assms(2)] show "chain (recState (fst st)) (recState (fst st'))"
    by simp
next
  assume "\<forall>e \<in> set evs. \<not> is_RecorderError e"
  with run_quiet [OF assms(1)] show "quiet_inv st"
    by simp
next
  assume q: "quiet_inv st \<and> \<not> is_RecorderError ev"
  with step_quiet [OF assms(2)]
  show "quiet_inv st'" and "chain (recState (fst st)) (recState (fst st'))"
    by simp_all
next
  assume "quiet_inv st \<and> is_RecorderError ev"
  with step_quiet_event [OF assms(2)]
  show "recState (fst st) = Recording \<or> recState (fst st) = Processing"
    by simp
next
  assume "quiet_inv st"
  with step_quiet_event [OF assms(2)]
  show "\<forall>i. ev = Timer i \<longrightarrow> recState (fst st) = Recording \<and> recState (fst st') = Processing"
    and "\<forall>i url. ev = Stopped i url \<longrightarrow> recState (fst st) = Processing \<and> recState (fst st') = Done"
    by simp_all
next
  assume "recState (fst st) = Done \<or> recState (fst st) = Error"
  then show "\<exists>s' ps'. page_step st (Click browser_with_webm) (s', ps') \<and> recState s' = Recording"
    by (rule click_restarts)
qed

text \<open>
  The steps of three short histories of the page, used below. A click in a browser that
  can record starts a recording of ten seconds; then the recorder reports an error. A
  click in a browser without \<open>captureStream\<close> fails.
\<close>

lemma recording_started:
  "run [Click browser_with_webm]
     (fst (handleRecord_begin browser_with_webm initial_page), [Waiting (Num 10000)])"
  "page_step (initial_page, []) (Click browser_with_webm)
     (fst (handleRecord_begin browser_with_webm initial_page), [Waiting (Num 10000)])"
  "recState (fst (handleRecord_begin browser_with_webm initial_page)) = Recording"
proof -
  have i: "recState initial_page \<noteq> Recording" "recState initial_page \<noteq> Processing"
    by (simp_all add: initial_page_def)
  show k: "page_step (initial_page, []) (Click browser_with_webm)
        (fst (handleRecord_begin browser_with_webm initial_page), [Waiting (Num 10000)])"
    using page_step.click [OF i handleRecord_begin_webm, of "[]"]
    by (simp add: handleRecord_begin_webm initial_page_def jsnum_simps)
  from run.step [OF run.init k]
  show "run [Click browser_with_webm]
     (fst (handleRecord_begin browser_with_webm initial_page), [Waiting (Num 10000)])"
    by simp
  show "recState (fst (handleRecord_begin browser_with_webm initial_page)) = Recording"
    by (simp add: handleRecord_begin_webm)
qed

lemma recording_failed:
  "run [Click browser_with_webm, RecorderError 0 None]
     (recorder_onerror None (fst (handleRecord_begin browser_with_webm initial_page)),
      [Waiting (Num 10000)])"
  "page_step (fst (handleRecord_begin browser_with_webm initial_page), [Waiting (Num 10000)])
     (RecorderError 0 None)
     (recorder_onerror None (fst (handleRecord_begin browser_with_webm initial_page)),
      [Waiting (Num 10000)])"
  "recState (recorder_onerror None (fst (handleRecord_begin browser_with_webm initial_page))) = Error"
  "errorMsg (recorder_onerror None (fst (handleRecord_begin browser_with_webm initial_page)))
     = Some ''Recording error''"
proof -
  show k: "page_step (fst (handleRecord_begin browser_with_webm initial_page), [Waiting (Num 10000)])
     (RecorderError 0 None)
     (recorder_onerror None (fst (handleRecord_begin browser_with_webm initial_page)),
      [Waiting (Num 10000)])"
    by (rule page_step.onerror) simp
  from run.step [OF recording_started(1) k]
  show "run [Click browser_with_webm, RecorderError 0 None]
     (recorder_onerror None (fst (handleRecord_begin browser_with_webm initial_page)),
      [Waiting (Num 10000)])"
    by simp
  show "recState (recorder_onerror None (fst (handleRecord_begin browser_with_webm initial_page))) = Error"
    "errorMsg (recorder_onerror None (fst (handleRecord_begin browser_with_webm initial_page)))
     = Some ''Recording error''"
    by (simp_all add: recorder_onerror_def Let_def)
qed

lemma capture_missing:
  "run [Click browser_without_capture]
     (fst (handleRecord_begin browser_without_capture initial_page), [])"
  "page_step (initial_page, []) (Click browser_without_capture)
     (fst (handleRecord_begin browser_without_capture initial_page), [])"
  "recState (fst (handleRecord_begin browser_without_capture initial_page)) = Error"
proof -
  have b: "handleRecord_begin browser_without_capture initial_page
     = (fst (handleRecord_begin browser_without_capture initial_page), None)"
    by (simp add: handleRecord_begin_def browser_without_capture_def Let_def)
  have i: "recState initial_page \<noteq> Recording" "recState initial_page \<noteq> Processing"
    by (simp_all add: initial_page_def)
  from page_step.click [OF i b, of "[]"]
  show k: "page_step (initial_page, []) (Click browser_without_capture)
     (fst (handleRecord_begin browser_without_capture initial_page), [])"
    by simp
  from run.step [OF run.init k]
  show "run [Click browser_without_capture]
     (fst (handleRecord_begin browser_without_capture initial_page), [])"
    by simp
  show "recState (fst (handleRecord_begin browser_without_capture initial_page)) = Error"
    by (simp add: handleRecord_begin_def browser_without_capture_def Let_def)
qed

text \<open>
  The theorem at four steps: the click that starts a recording at the initial page; then
  the timer, which moves the status from recording to processing; instead of the timer,
  an error event of the recorder, which sets the status to error with the message
  \<open>Recording error\<close>; and, after a click without \<open>captureStream\<close> has failed, a click in a
  browser that can record, which moves the status from error to recording.
\<close>

theorem status_transitions_witness:
  "run [] (initial_page, [])
   \<and> page_step (initial_page, []) (Click browser_with_webm)
        (fst (handleRecord_begin browser_with_webm initial_page), [Waiting (Num 10000)])
   \<and> recState initial_page = Idle
   \<and> quiet_inv (initial_page, [])
   \<and> recState (fst (handleRecord_begin browser_with_webm initial_page)) = Recording
   \<and> quiet_inv (fst (handleRecord_begin browser_with_webm initial_page), [Waiting (Num 10000)])
   \<and> run [Click browser_with_webm]
        (fst (handleRecord_begin browser_with_webm initial_page), [Waiting (Num 10000)])
   \<and> page_step (fst (handleRecord_begin browser_with_webm initial_page), [Waiting (Num 10000)])
        (Timer 0)
        (handleRecord_after_wait (fst (handleRecord_begin browser_with_webm initial_page)), [Stopping])
   \<and> recState (handleRecord_after_wait (fst (handleRecord_begin browser_with_webm initial_page)))
        = Processing
   \<and> page_step (fst (handleRecord_begin browser_with_webm initial_page), [Waiting (Num 10000)])
        (RecorderError 0 None)
        (recorder_onerror None (fst (handleRecord_begin browser_with_webm initial_page)),
         [Waiting (Num 10000)])
   \<and> recState (recorder_onerror None (fst (handleRecord_begin browser_with_webm initial_page))) = Error
   \<and> errorMsg (recorder_onerror None (fst (handleRecord_begin browser_with_webm initial_page)))
        = Some ''Recording error''
   \<and> run [Click browser_without_capture]
        (fst (handleRecord_begin browser_without_capture initial_page), [])
   \<and> recState (fst (handleRecord_begin browser_without_capture initial_page)) = Error
   \<and> (\<exists>s' ps'. page_step (fst (handleRecord_begin browser_without_capture initial_page), [])
                  (Click browser_with_webm) (s', ps')
          \<and> recState s' = Recording)"
proof -
  let ?rec = "fst (handleRecord_begin browser_with_webm initial_page)"
  let ?err = "fst (handleRecord_begin browser_without_capture initial_page)"
  have t: "page_step (?rec, [Waiting (Num 10000)]) (Timer 0) (handleRecord_after_wait ?rec, [Stopping])"
    using page_step.timer [of 0 "[Waiting (Num 10000)]" "Num 10000" ?rec] by simp
  have i: "recState initial_page = Idle"
    by (simp add: initial_page_def)
  note a = status_transitions [OF run.init recording_started(2)]
  note b = status_transitions [OF recording_started(1) t]
  note c = status_transitions [OF recording_started(1) recording_failed(2)]
  note d = status_transitions [OF capture_missing(1) page_step.change [of ?err "[]" 30]]
  from a have q0: "quiet_inv (initial_page, [])"
    by simp
  with a have q1: "quiet_inv (?rec, [Waiting (Num 10000)])"
    by simp
  with b have p: "recState (handleRecord_after_wait ?rec) = Processing"
    by simp
  from c have e: "recState (recorder_onerror None ?rec) = Error"
    by simp
  from d capture_missing(3)
  have k: "\<exists>s' ps'. page_step (?err, []) (Click browser_with_webm) (s', ps') \<and> recState s' = Recording"
    by simp
  from run.init recording_started recording_failed(2,4) capture_missing(1,3) t i q0 q1 p e k
  show ?thesis
    by blast
qed

text \<open>
  The claim C6 as stated fails at three steps off its chain. At the initial page, in a
  browser whose canvas has no \<open>captureStream\<close>, the click moves the status from idle
  directly to error. During a recording, an error event of the recorder moves the status
  from recording directly to error. Both are written so. After that error event the call
  of \<open>handleRecord\<close> is still suspended, nothing having cancelled its wait, and when the
  timer fires it moves the status from error to processing.
\<close>

theorem status_chain_counterexample:
  "page_step (initial_page, []) (Click browser_without_capture)
     (fst (handleRecord_begin browser_without_capture initial_page), [])
   \<and> recState initial_page = Idle
   \<and> recState (fst (handleRecord_begin browser_without_capture initial_page)) = Error
   \<and> run [Click browser_with_webm]
        (fst (handleRecord_begin browser_with_webm initial_page), [Waiting (Num 10000)])
   \<and> page_step (fst (handleRecord_begin browser_with_webm initial_page), [Waiting (Num 10000)])
        (RecorderError 0 None)
        (recorder_onerror None (fst (handleRecord_begin browser_with_webm initial_page)),
         [Waiting (Num 10000)])
   \<and> recState (fst (handleRecord_begin browser_with_webm initial_page)) = Recording
   \<and> recState (recorder_onerror None (fst (handleRecord_begin browser_with_webm initial_page))) = Error
   \<and> run [Click browser_with_webm, RecorderError 0 None]
        (recorder_onerror None (fst (handleRecord_begin browser_with_webm initial_page)),
         [Waiting (Num 10000)])
   \<and> page_step (recorder_onerror None (fst (handleRecord_begin browser_with_webm initial_page)),
                [Waiting (Num 10000)])
        (Timer 0)
        (handleRecord_after_wait
           (recorder_onerror None (fst (handleRecord_begin browser_with_webm initial_page))),
         [Stopping])
   \<and> recState (handleRecord_after_wait
          (recorder_onerror None (fst (handleRecord_begin browser_with_webm initial_page))))
        = Processing"
proof -
  let ?err = "recorder_onerror None (fst (handleRecord_begin browser_with_webm initial_page))"
  have t: "page_step (?err, [Waiting (Num 10000)]) (Timer 0) (handleRecord_after_wait ?err, [Stopping])"
    using page_step.timer [of 0 "[Waiting (Num 10000)]" "Num 10000" ?err] by simp
  have p: "recState (handleRecord_after_wait ?err) = Processing"
    by (simp add: handleRecord_after_wait_def)
  have i: "recState initial_page = Idle"
    by (simp add: initial_page_def)
  from capture_missing(2,3) recording_started(1,3) recording_failed(1,2,3) t p i show ?thesis
    by blast
qed

subsection \<open>The duration\<close>

lemma duration_onChange_range:
  "\<exists>d. durationSec (duration_onChange (Num r) s) = Num d \<and> 1 \<le> d \<and> d \<le> 60"
  by (simp add: duration_onChange_def jsnum_simps)

lemma step_duration:
  assumes "page_step st ev st'"
    and "\<exists>d. durationSec (fst st) = Num d \<and> 1 \<le> d \<and> d \<le> 60"
    and "\<forall>ms. Waiting ms \<in> set (snd st) \<longrightarrow> (\<exists>d. ms = Num (d * 1000) \<and> 1 \<le> d \<and> d \<le> 60)"
  shows "(\<exists>d. durationSec (fst st') = Num d \<and> 1 \<le> d \<and> d \<le> 60)
     \<and> (\<forall>ms. Waiting ms \<in> set (snd st') \<longrightarrow> (\<exists>d. ms = Num (d * 1000) \<and> 1 \<le> d \<and> d \<le> 60))"
  using assms
proof (induction rule: page_step.induct)
  case (click s env s' r ps)
  then show ?case
    by (auto simp add: handleRecord_begin_def Let_def jsnum_simps split: if_splits)
next
  case (timer i ps ms s)
  then show ?case
    by (auto simp add: handleRecord_after_wait_def dest!: set_update_subset_insert [THEN subsetD])
next
  case (stopped i ps s url)
  then show ?case
    by (auto simp add: handleRecord_after_stop_def Let_def dest: in_set_takeD in_set_dropD)
next
  case (onerror i ps s m)
  then show ?case
    by (simp add: recorder_onerror_def Let_def)
next
  case (change s ps r)
  then show ?case
    using duration_onChange_range [of r s] by auto
qed

text \<open>
  C10, as the code has it: in every state the page reaches, the stored duration is a
  number in the closed interval from 1 to 60 (not necessarily an integer), and every
  suspended recording waits for 1000 times such a number of milliseconds.
\<close>

theorem duration_between_1_and_60:
  assumes "run evs st"
  shows "(\<exists>d. durationSec (fst st) = Num d \<and> 1 \<le> d \<and> d \<le> 60)
     \<and> (\<forall>ms. Waiting ms \<in> set (snd st) \<longrightarrow> (\<exists>d. ms = Num (d * 1000) \<and> 1 \<le> d \<and> d \<le> 60))"
  using assms
proof (induction rule: run.induct)
  case init
  show ?case
    by (simp add: initial_page_def jsnum_simps)
next
  case (step evs st ev st')
  then show ?case
    by (intro step_duration) auto
qed

text \<open>The theorem after typing 2.5 into the input and clicking Record: the wait is 2500 ms.\<close>

theorem duration_between_1_and_60_witness:
  "run [Change 2.5, Click browser_with_webm]
     (fst (handleRecord_begin browser_with_webm (duration_onChange (Num 2.5) initial_page)),
      [Waiting (Num 2500)])
   \<and> durationSec (fst (handleRecord_begin browser_with_webm (duration_onChange (Num 2.5) initial_page)))
       = Num 2.5
   \<and> Waiting (Num 2500) \<in> set [Waiting (Num 2500)]
   \<and> (\<exists>d. Num 2500 = Num (d * 1000) \<and> 1 \<le> d \<and> d \<le> 60)"
proof -
  let ?s1 = "duration_onChange (Num 2.5) initial_page"
  let ?s2 = "fst (handleRecord_begin browser_with_webm ?s1)"
  have r1: "run ([] @ [Change 2.5]) (?s1, [])"
    by (rule run.step [OF run.init page_step.change])
  have i: "recState ?s1 \<noteq> Recording" "recState ?s1 \<noteq> Processing"
    by (simp_all add: initial_page_def duration_onChange_def)
  have d: "durationSec ?s1 = Num 2.5"
    by (simp add: duration_onChange_def jsnum_simps)
  have k: "page_step (?s1, []) (Click browser_with_webm) (?s2, [Waiting (Num 2500)])"
    using page_step.click [OF i handleRecord_begin_webm, of "[]"]
    by (simp add: handleRecord_begin_webm duration_onChange_def jsnum_simps)
  have r2: "run [Change 2.5, Click browser_with_webm] (?s2, [Waiting (Num 2500)])"
    using run.step [OF r1 k] by simp
  from duration_between_1_and_60 [OF r2] r2 d show ?thesis
    by (simp add: handleRecord_begin_webm)
qed

text \<open>
  The claim C10 as stated fails: the value 2.5 is stored unchanged, and it is not an integer.
\<close>

theorem duration_not_integer:
  "durationSec (duration_onChange (Num 2.5) initial_page) = Num 2.5 \<and> (2.5 :: real) \<notin> \<int>"
proof -
  have "(2.5 :: real) \<notin> \<int>"
  proof
    assume "(2.5 :: real) \<in> \<int>"
    then obtain k :: int where "(2.5 :: real) = of_int k"
      by (auto elim: Ints_cases)
    then have "real_of_int 5 = real_of_int (2 * k)"
      by simp
    then have "5 = 2 * k"
      by (simp only: of_int_eq_iff)
    then show False
      by presburger
  qed
  then show ?thesis
    by (simp add: duration_onChange_def jsnum_simps)
qed

end
